theory Spec2Isabelle
  imports Complex_Main "HOL-Library.Monad_Syntax"
begin

section \<open>Strings and numbers of the host language\<close>

text \<open>
  A JavaScript string is a sequence of UTF-16 code units; a code unit is modelled as a
  natural number, and \<open>js\<close> turns an ASCII literal into such a sequence. Numbers are
  modelled as exact reals (integers where the source only ever holds integers). The source
  computes in IEEE doubles, and the two agree as long as every intermediate result is a
  double, as it is in the scenarios evaluated below. Elsewhere the source rounds each
  intermediate result, which can move a channel by one at a tie, and a result beyond the
  largest double is an infinity, from which a product with zero makes NaN. Neither the
  rounding nor the infinities and NaN exist in this theory, so nothing is stated here
  that needs them.
\<close>

type_synonym jsstring = "nat list"

definition js :: "string \<Rightarrow> jsstring" where
  "js s = map of_char s"

text \<open>The character classes \<open>\d\<close>, \<open>\s\<close> and \<open>[\d.]\<close> of a JavaScript regular expression.\<close>

definition isDigit :: "nat \<Rightarrow> bool" where
  "isDigit c = (48 \<le> c \<and> c \<le> 57)"

definition isSpace :: "nat \<Rightarrow> bool" where
  "isSpace c =
     (c \<in> set [9, 10, 11, 12, 13, 32, 160, 5760, 8232, 8233, 8239, 8287, 12288, 65279]
      \<or> (8192 \<le> c \<and> c \<le> 8202))"

definition isDigitOrDot :: "nat \<Rightarrow> bool" where
  "isDigitOrDot c = (isDigit c \<or> c = 46)"

text \<open>
  The pieces of the two regular expressions of \<open>parseRGB\<close>, matched at the start of a
  string: a literal, a greedy \<open>cls+\<close> and a greedy \<open>cls*\<close>. In both expressions every
  quantified class is followed by a character outside the class, so the greedy match is
  the only one and backtracking never finds another.
\<close>

definition reLit :: "jsstring \<Rightarrow> jsstring \<Rightarrow> jsstring option" where
  "reLit p s = (if take (length p) s = p then Some (drop (length p) s) else None)"

definition rePlus :: "(nat \<Rightarrow> bool) \<Rightarrow> jsstring \<Rightarrow> (jsstring \<times> jsstring) option" where
  "rePlus cls s =
     (if takeWhile cls s = [] then None else Some (takeWhile cls s, dropWhile cls s))"

definition reStar :: "(nat \<Rightarrow> bool) \<Rightarrow> jsstring \<Rightarrow> jsstring" where
  "reStar cls s = dropWhile cls s"

text \<open>\<^verbatim>\<open>/rgb\((\d+),\s*(\d+),\s*(\d+)\)/\<close> at the start of \<open>s\<close>: the three captures.\<close>

definition matchRgbAt :: "jsstring \<Rightarrow> (jsstring \<times> jsstring \<times> jsstring) option" where
  "matchRgbAt s = do {
     s1 \<leftarrow> reLit (js ''rgb('') s;
     (r, s2) \<leftarrow> rePlus isDigit s1;
     s3 \<leftarrow> reLit (js '','') s2;
     (g, s4) \<leftarrow> rePlus isDigit (reStar isSpace s3);
     s5 \<leftarrow> reLit (js '','') s4;
     (b, s6) \<leftarrow> rePlus isDigit (reStar isSpace s5);
     s7 \<leftarrow> reLit (js '')'') s6;
     Some (r, g, b)
   }"

text \<open>\<^verbatim>\<open>/rgba\((\d+),\s*(\d+),\s*(\d+),\s*[\d.]+\)/\<close> at the start of \<open>s\<close>.\<close>

definition matchRgbaAt :: "jsstring \<Rightarrow> (jsstring \<times> jsstring \<times> jsstring) option" where
  "matchRgbaAt s = do {
     s1 \<leftarrow> reLit (js ''rgba('') s;
     (r, s2) \<leftarrow> rePlus isDigit s1;
     s3 \<leftarrow> reLit (js '','') s2;
     (g, s4) \<leftarrow> rePlus isDigit (reStar isSpace s3);
     s5 \<leftarrow> reLit (js '','') s4;
     (b, s6) \<leftarrow> rePlus isDigit (reStar isSpace s5);
     s7 \<leftarrow> reLit (js '','') s6;
     (a, s8) \<leftarrow> rePlus isDigitOrDot (reStar isSpace s7);
     s9 \<leftarrow> reLit (js '')'') s8;
     Some (r, g, b)
   }"

text \<open>\<open>String.prototype.match\<close> without the \<open>g\<close> flag: the leftmost position that matches.\<close>

fun reSearch :: "(jsstring \<Rightarrow> 'a option) \<Rightarrow> jsstring \<Rightarrow> 'a option" where
  "reSearch m [] = m []"
| "reSearch m (c # cs) = (case m (c # cs) of Some r \<Rightarrow> Some r | None \<Rightarrow> reSearch m cs)"

text \<open>
  \<open>parseInt\<close> on a capture of \<open>\d+\<close>: the decimal value, as an exact natural number.
  The source's \<open>parseInt\<close> returns a double: the same value up to \<open>2^53\<close>, a rounded one
  above, and \<open>Infinity\<close> from about 309 digits on.
\<close>

definition parseInt :: "jsstring \<Rightarrow> nat" where
  "parseInt ds = foldl (\<lambda>acc c. 10 * acc + (c - 48)) 0 ds"

text \<open>The decimal digits of a natural number, and \<open>String(n)\<close> for an integer-valued number.\<close>

fun digitsOf :: "nat \<Rightarrow> jsstring" where
  "digitsOf n = (if n < 10 then [48 + n] else digitsOf (n div 10) @ [48 + n mod 10])"

declare digitsOf.simps [simp del]

definition numberToString :: "int \<Rightarrow> jsstring" where
  "numberToString i = (if i < 0 then js ''-'' @ digitsOf (nat (- i)) else digitsOf (nat i))"

text \<open>\<open>Math.round\<close>: the nearest integer, a half rounded up.\<close>

definition Math_round :: "real \<Rightarrow> int" where
  "Math_round x = \<lfloor>x + 1 / 2\<rfloor>"

text \<open>\<open>String.prototype.includes\<close>.\<close>

fun str_includes :: "jsstring \<Rightarrow> jsstring \<Rightarrow> bool" where
  "str_includes [] sub = (sub = [])"
| "str_includes (c # cs) sub = (take (length sub) (c # cs) = sub \<or> str_includes cs sub)"

section \<open>The analyzer: colour model and transform\<close>

text \<open>\<open>DOMAnalyzer.getLuminance\<close> and \<open>DOMAnalyzer.getContrastRatio\<close> (WCAG).\<close>

definition linearize :: "real \<Rightarrow> real" where
  "linearize c = (let x = c / 255 in
     if x \<le> 0.03928 then x / 12.92 else ((x + 0.055) / 1.055) powr 2.4)"

definition getLuminance :: "real \<Rightarrow> real \<Rightarrow> real \<Rightarrow> real" where
  "getLuminance r g b = 0.2126 * linearize r + 0.7152 * linearize g + 0.0722 * linearize b"

definition getContrastRatio :: "nat \<times> nat \<times> nat \<Rightarrow> nat \<times> nat \<times> nat \<Rightarrow> real" where
  "getContrastRatio rgb1 rgb2 =
     (case rgb1 of (r1, g1, b1) \<Rightarrow> case rgb2 of (r2, g2, b2) \<Rightarrow>
        let lum1 = getLuminance (real r1) (real g1) (real b1);
            lum2 = getLuminance (real r2) (real g2) (real b2);
            lighter = max lum1 lum2;
            darker = min lum1 lum2
        in (lighter + 0.05) / (darker + 0.05))"

text \<open>\<open>DOMAnalyzer.parseRGB\<close>: the \<open>rgb\<close> expression is searched first, then the \<open>rgba\<close> one.\<close>

definition parseRGB :: "jsstring \<Rightarrow> (nat \<times> nat \<times> nat) option" where
  "parseRGB color =
     (case reSearch matchRgbAt color of
        Some (r, g, b) \<Rightarrow> Some (parseInt r, parseInt g, parseInt b)
      | None \<Rightarrow>
         (case reSearch matchRgbaAt color of
            Some (r, g, b) \<Rightarrow> Some (parseInt r, parseInt g, parseInt b)
          | None \<Rightarrow> None))"

text \<open>
  The two shapes of string that the expressions of \<open>parseRGB\<close> describe: \<open>r\<close>, \<open>g\<close>, \<open>b\<close>
  are non-empty runs of decimal digits, \<open>a\<close> is a non-empty run of digits and dots, and
  \<open>w1\<close>, \<open>w2\<close>, \<open>w3\<close> are runs of white space, which stand directly after a comma.
\<close>

definition digitString :: "jsstring \<Rightarrow> bool" where
  "digitString ds = (ds \<noteq> [] \<and> list_all isDigit ds)"

definition alphaString :: "jsstring \<Rightarrow> bool" where
  "alphaString a = (a \<noteq> [] \<and> list_all isDigitOrDot a)"

definition rgbString :: "jsstring \<Rightarrow> jsstring \<Rightarrow> jsstring \<Rightarrow> jsstring \<Rightarrow> jsstring \<Rightarrow> jsstring" where
  "rgbString r w1 g w2 b = js ''rgb('' @ r @ js '','' @ w1 @ g @ js '','' @ w2 @ b @ js '')''"

definition rgbaString ::
  "jsstring \<Rightarrow> jsstring \<Rightarrow> jsstring \<Rightarrow> jsstring \<Rightarrow> jsstring \<Rightarrow> jsstring \<Rightarrow> jsstring \<Rightarrow> jsstring" where
  "rgbaString r w1 g w2 b w3 a =
     js ''rgba('' @ r @ js '','' @ w1 @ g @ js '','' @ w2 @ b @ js '','' @ w3 @ a @ js '')''"

text \<open>
  The settings object. A slider value may be missing (\<open>undefined\<close>), which the transform
  replaces by its default through \<open>??\<close>.
\<close>

record settings =
  enabled :: bool
  brightness :: "real option"
  contrast :: "real option"
  warmth :: "real option"

definition nullish :: "'a option \<Rightarrow> 'a \<Rightarrow> 'a" where
  "nullish v d = (case v of Some x \<Rightarrow> x | None \<Rightarrow> d)"

text \<open>
  \<open>DOMAnalyzer.invertForDarkTheme\<close>, in two parts: \<open>invertChannels\<close> is the arithmetic of
  steps 1 to 5 on the parsed triple up to \<open>Math.round\<close>, \<open>formatRgb\<close> is the template
  string of the return statement. The arithmetic is read over the exact reals; in the
  source a slider value near the largest double makes a product overflow, and
  \<open>Math.min\<close>, \<open>Math.max\<close> and \<open>Math.round\<close> hand a NaN through, which this
  definition does not show.
\<close>

definition invertChannels :: "nat \<times> nat \<times> nat \<Rightarrow> settings \<Rightarrow> int \<times> int \<times> int" where
  "invertChannels rgb st =
     (case rgb of (r, g, b) \<Rightarrow>
        let br = nullish (brightness st) 1;
            ct = nullish (contrast st) 1;
            wm = nullish (warmth st) 0;
            invR = 255 - real r; invG = 255 - real g; invB = 255 - real b;
            invR = 128 + (invR - 128) * br;
            invG = 128 + (invG - 128) * br;
            invB = 128 + (invB - 128) * br;
            invR = 128 + (invR - 128) * ct;
            invG = 128 + (invG - 128) * ct;
            invB = 128 + (invB - 128) * ct;
            invR = (if wm > 0 then min 255 (invR + wm * 25) else invR);
            invG = (if wm > 0 then min 255 (invG + wm * 15) else invG);
            invB = (if wm > 0 then max 0 (invB - wm * 40) else invB);
            invR = max 0 (min 255 invR);
            invG = max 0 (min 255 invG);
            invB = max 0 (min 255 invB)
        in (Math_round invR, Math_round invG, Math_round invB))"

definition formatRgb :: "int \<times> int \<times> int \<Rightarrow> jsstring" where
  "formatRgb c = (case c of (r, g, b) \<Rightarrow>
     js ''rgb('' @ numberToString r @ js '', '' @ numberToString g @ js '', ''
       @ numberToString b @ js '')'')"

definition invertForDarkTheme :: "jsstring \<Rightarrow> settings \<Rightarrow> jsstring" where
  "invertForDarkTheme color st =
     (case parseRGB color of
        None \<Rightarrow> color
      | Some rgb \<Rightarrow> formatRgb (invertChannels rgb st))"

text \<open>
  The transform as the specification words it (section 4.2, steps 1 to 5), on the parsed
  triple and the three slider values.
\<close>

definition spec_clamp :: "real \<Rightarrow> real" where
  "spec_clamp x = (if x < 0 then 0 else if x > 255 then 255 else x)"

definition spec_transform :: "nat \<times> nat \<times> nat \<Rightarrow> real \<Rightarrow> real \<Rightarrow> real \<Rightarrow> int \<times> int \<times> int" where
  "spec_transform rgb br ct wm =
     (case rgb of (r, g, b) \<Rightarrow>
        let (r1, g1, b1) = (255 - real r, 255 - real g, 255 - real b);
            (r2, g2, b2) = (128 + (r1 - 128) * br, 128 + (g1 - 128) * br, 128 + (b1 - 128) * br);
            (r3, g3, b3) = (128 + (r2 - 128) * ct, 128 + (g2 - 128) * ct, 128 + (b2 - 128) * ct);
            (r4, g4, b4) = (if wm > 0 then (r3 + wm * 25, g3 + wm * 15, b3 - wm * 40)
                            else (r3, g3, b3))
        in (round (spec_clamp r4), round (spec_clamp g4), round (spec_clamp b4)))"

section \<open>The host page\<close>

text \<open>
  What the content script sees of the browser. An element is identified by a number; the
  page gives each element its tag name, whether \<open>closest('svg')\<close> finds an ancestor, its
  \<open>src\<close> and \<open>data\<close> attributes and the length of its class list. The element tree is a
  rose tree of identifiers. The script writes three properties of \<open>element.style\<close>; every
  such write is appended to a log. The browser's style resolution is a parameter:
  \<open>cascade\<close> maps the writes made so far and an element to the computed style, or to
  \<open>None\<close> when \<open>getComputedStyle\<close> throws for that element. Every element is assumed to be
  an HTML or SVG element, so \<open>tagName\<close>, \<open>classList\<close>, \<open>getAttribute\<close>, \<open>closest\<close> and
  \<open>style\<close> exist and do not throw.
\<close>

type_synonym node = nat

datatype exn = TypeError

datatype styleProp = Color | BackgroundColor | BorderColor

record cstyle =
  backgroundImage :: jsstring
  color :: jsstring
  backgroundColor :: jsstring
  borderColor :: jsstring

record element =
  tagName :: jsstring
  closestSvg :: bool
  srcAttr :: "jsstring option"
  dataAttr :: "jsstring option"
  classListLength :: nat

datatype dom = Element (ident: node) (childElements: "dom list")

text \<open>The entry of \<open>elementColorMap\<close> and the result of \<open>analyzeElement\<close>.\<close>

record colorData =
  originalColor :: jsstring
  originalBg :: jsstring
  originalBorder :: jsstring

record analysis =
  isMedia :: bool
  isText :: bool
  isContainer :: bool
  shouldInvert :: bool
  shouldPreserve :: bool

text \<open>
  The page together with the module state of \<open>content.js\<close> (\<open>currentSettings\<close>,
  \<open>elementColorMap\<close>, \<open>mutationObserver\<close>) and of the analyzer (\<open>elementCache\<close>).
\<close>

record world =
  document :: dom
  elements :: "node \<Rightarrow> element"
  cascade :: "(node \<times> styleProp \<times> jsstring) list \<Rightarrow> node \<Rightarrow> cstyle option"
  writes :: "(node \<times> styleProp \<times> jsstring) list"
  currentSettings :: settings
  elementColorMap :: "node \<rightharpoonup> colorData"
  elementCache :: "node \<rightharpoonup> analysis"
  mutationObserver :: bool

text \<open>Document order: an element, then its subtrees from left to right.\<close>

fun preorder :: "dom \<Rightarrow> node list" where
  "preorder (Element n cs) = n # concat (map preorder cs)"

text \<open>
  \<open>element.querySelectorAll('*')\<close> and the nodes a \<open>TreeWalker\<close> rooted at an element
  yields through \<open>nextNode\<close>: the descendants, without the element itself.
\<close>

definition descendants :: "dom \<Rightarrow> node list" where
  "descendants d = concat (map preorder (childElements d))"

definition getComputedStyle :: "world \<Rightarrow> node \<Rightarrow> exn + cstyle" where
  "getComputedStyle w element =
     (case cascade w (writes w) element of None \<Rightarrow> Inl TypeError | Some style \<Rightarrow> Inr style)"

text \<open>The assignment \<open>element.style.p = v\<close>.\<close>

definition setStyle :: "world \<Rightarrow> node \<Rightarrow> styleProp \<Rightarrow> jsstring \<Rightarrow> world" where
  "setStyle w element p v = w\<lparr>writes := (element, p, v) # writes w\<rparr>"

text \<open>The value of an inline property as the script last wrote it, if it ever did.\<close>

fun lastWrite :: "(node \<times> styleProp \<times> jsstring) list \<Rightarrow> node \<Rightarrow> styleProp \<Rightarrow> jsstring option" where
  "lastWrite [] n p = None"
| "lastWrite ((n', p', v) # ws) n p = (if n' = n \<and> p' = p then Some v else lastWrite ws n p)"

text \<open>\<open>toLowerCase\<close> on a tag name, whose letters are ASCII.\<close>

definition toLowerCase :: "jsstring \<Rightarrow> jsstring" where
  "toLowerCase s = map (\<lambda>c. if 65 \<le> c \<and> c \<le> 90 then c + 32 else c) s"

section \<open>The analyzer: classification\<close>

definition textElements :: "jsstring list" where
  "textElements = map js [''p'', ''span'', ''a'', ''h1'', ''h2'', ''h3'', ''h4'', ''h5'', ''h6'',
     ''li'', ''td'', ''th'', ''label'', ''button'']"

definition containerElements :: "jsstring list" where
  "containerElements = map js [''div'', ''section'', ''article'', ''main'', ''aside'', ''nav'',
     ''header'', ''footer'']"

text \<open>
  \<open>DOMAnalyzer.isMediaElement\<close>; it throws where \<open>getComputedStyle\<close> does. Its argument
  is always an element here, so the guard against a missing argument is left out.
\<close>

definition isMediaElement :: "world \<Rightarrow> node \<Rightarrow> exn + bool" where
  "isMediaElement w element =
     (let tag = toLowerCase (tagName (elements w element)) in
      if tag \<in> set (map js [''img'', ''video'', ''canvas'', ''svg'', ''picture'', ''iframe''])
      then Inr True
      else if closestSvg (elements w element) then Inr True
      else case getComputedStyle w element of
        Inl e \<Rightarrow> Inl e
      | Inr style \<Rightarrow>
          if backgroundImage style \<noteq> [] \<and> backgroundImage style \<noteq> js ''none'' then Inr True
          else
            let src = (case srcAttr (elements w element) of
                         Some a \<Rightarrow> if a \<noteq> [] then Some a else dataAttr (elements w element)
                       | None \<Rightarrow> dataAttr (elements w element))
            in case src of
                 Some a \<Rightarrow>
                   if a \<noteq> [] \<and> (str_includes a (js ''data:image'') \<or> str_includes a (js ''data:video''))
                   then Inr True else Inr False
               | None \<Rightarrow> Inr False)"

definition isTextElement :: "world \<Rightarrow> node \<Rightarrow> bool" where
  "isTextElement w element = (toLowerCase (tagName (elements w element)) \<in> set textElements)"

definition isContainerElement :: "world \<Rightarrow> node \<Rightarrow> bool" where
  "isContainerElement w element =
     (toLowerCase (tagName (elements w element)) \<in> set containerElements
      \<or> classListLength (elements w element) > 0)"

text \<open>\<open>DOMAnalyzer.analyzeElement\<close>, memoised in \<open>elementCache\<close>.\<close>

definition analyzeElement :: "world \<Rightarrow> node \<Rightarrow> (exn + analysis) \<times> world" where
  "analyzeElement w element =
     (case elementCache w element of
        Some cached \<Rightarrow> (Inr cached, w)
      | None \<Rightarrow>
         (case isMediaElement w element of
            Inl e \<Rightarrow> (Inl e, w)
          | Inr m \<Rightarrow>
             let a = \<lparr>isMedia = m, isText = isTextElement w element,
                      isContainer = isContainerElement w element,
                      shouldInvert = False, shouldPreserve = False\<rparr>;
                 a = (if isMedia a then a\<lparr>shouldPreserve := True\<rparr>
                      else if isText a \<or> \<not> isContainer a then a\<lparr>shouldInvert := True\<rparr>
                      else a\<lparr>shouldInvert := True\<rparr>)
             in (Inr a, w\<lparr>elementCache := (elementCache w)(element \<mapsto> a)\<rparr>)))"

section \<open>The content script\<close>

definition transparent :: jsstring where
  "transparent = js ''rgba(0, 0, 0, 0)''"

text \<open>
  The three guarded assignments that \<open>transformElement\<close> (lines 137 to 153) and
  \<open>updateThemeWithNewSettings\<close> (lines 97 to 111) both run inside their \<open>try\<close> block. The
  only call that can throw is \<open>isMediaElement\<close>, evaluated after the first two conjuncts
  of the background guard; the exception ends the block, the caller's \<open>catch\<close> swallows
  it, and the writes made before it stay.
\<close>

definition writeBorder :: "world \<Rightarrow> node \<Rightarrow> colorData \<Rightarrow> world" where
  "writeBorder w element cd =
     (if originalBorder cd \<noteq> [] \<and> originalBorder cd \<noteq> transparent
      then setStyle w element BorderColor (invertForDarkTheme (originalBorder cd) (currentSettings w))
      else w)"

definition writeColors :: "world \<Rightarrow> node \<Rightarrow> colorData \<Rightarrow> world" where
  "writeColors w element cd =
     (let w1 = (if originalColor cd \<noteq> [] \<and> originalColor cd \<noteq> transparent
                then setStyle w element Color (invertForDarkTheme (originalColor cd) (currentSettings w))
                else w)
      in if originalBg cd \<noteq> [] \<and> originalBg cd \<noteq> transparent
         then (case isMediaElement w1 element of
                 Inl e \<Rightarrow> w1
               | Inr m \<Rightarrow>
                   if \<not> m
                   then writeBorder (setStyle w1 element BackgroundColor
                          (invertForDarkTheme (originalBg cd) (currentSettings w1))) element cd
                   else writeBorder w1 element cd)
         else writeBorder w1 element cd)"

text \<open>\<open>transformElement\<close>: never throws, its whole body is inside \<open>try\<close>.\<close>

definition transformElement :: "world \<Rightarrow> node \<Rightarrow> world" where
  "transformElement w element =
     (case getComputedStyle w element of
        Inl e \<Rightarrow> w
      | Inr style \<Rightarrow>
         (case elementColorMap w element of
            Some cd \<Rightarrow> writeColors w element cd
          | None \<Rightarrow>
             let cd = \<lparr>originalColor = color style, originalBg = backgroundColor style,
                       originalBorder = borderColor style\<rparr>
             in writeColors (w\<lparr>elementColorMap := (elementColorMap w)(element \<mapsto> cd)\<rparr>) element cd))"

text \<open>
  A loop over a list whose body may throw: the first exception ends the loop and leaves
  the state reached so far. It serves for \<open>forEach\<close> and for the \<open>while\<close> loop over the
  tree walker.
\<close>

fun forEach :: "'a list \<Rightarrow> ('s \<Rightarrow> 'a \<Rightarrow> exn option \<times> 's) \<Rightarrow> 's \<Rightarrow> exn option \<times> 's" where
  "forEach [] f s = (None, s)"
| "forEach (x # xs) f s =
     (case f s x of (Some e, s') \<Rightarrow> (Some e, s') | (None, s') \<Rightarrow> forEach xs f s')"

definition startMutationObserver :: "world \<Rightarrow> world" where
  "startMutationObserver w = (if mutationObserver w then w else w\<lparr>mutationObserver := True\<rparr>)"

text \<open>
  \<open>applyTheme\<close>. The loop state is the world and the \<open>processed\<close> set; the walker starts at
  \<open>document.documentElement\<close> and \<open>nextNode\<close> yields its descendants in document order.
  \<open>analyzeElement\<close> is called outside any \<open>try\<close>.
\<close>

definition applyThemeNode :: "world \<times> node list \<Rightarrow> node \<Rightarrow> exn option \<times> world \<times> node list" where
  "applyThemeNode s node = (case s of (w, processed) \<Rightarrow>
     if node \<in> set processed then (None, w, processed)
     else case analyzeElement w node of
        (Inl e, w1) \<Rightarrow> (Some e, w1, node # processed)
      | (Inr a, w1) \<Rightarrow>
          if shouldPreserve a then (None, w1, node # processed)
          else if shouldInvert a then (None, transformElement w1 node, node # processed)
          else (None, w1, node # processed))"

definition applyTheme :: "world \<Rightarrow> exn option \<times> world" where
  "applyTheme w =
     (if \<not> enabled (currentSettings w) then (None, w)
      else case forEach (descendants (document w)) applyThemeNode (w, []) of
        (Some e, w1, processed) \<Rightarrow> (Some e, w1)
      | (None, w1, processed) \<Rightarrow> (None, startMutationObserver w1))"

text \<open>\<open>updateThemeWithNewSettings\<close>, over \<open>document.querySelectorAll('*')\<close>.\<close>

definition updateElement :: "world \<Rightarrow> node \<Rightarrow> exn option \<times> world" where
  "updateElement w element =
     (case elementColorMap w element of
        Some cd \<Rightarrow> (None, writeColors w element cd)
      | None \<Rightarrow> (None, w))"

definition updateThemeWithNewSettings :: "world \<Rightarrow> exn option \<times> world" where
  "updateThemeWithNewSettings w =
     (if \<not> enabled (currentSettings w) then (None, w)
      else forEach (preorder (document w)) updateElement w)"

text \<open>
  The callback of the mutation observer. A record is of type \<open>childList\<close> with its added
  nodes (an element comes with its subtree), or of type \<open>attributes\<close> with the attribute
  name and the target.
\<close>

datatype addedNode = ElementNode dom | TextNode | CommentNode

fun nodeType :: "addedNode \<Rightarrow> nat" where
  "nodeType (ElementNode d) = 1"
| "nodeType TextNode = 3"
| "nodeType CommentNode = 8"

datatype mutation = ChildList "addedNode list" | Attributes jsstring node

definition observeChild :: "world \<times> node list \<Rightarrow> node \<Rightarrow> exn option \<times> world \<times> node list" where
  "observeChild s child = (case s of (w, processed) \<Rightarrow>
     if child \<in> set processed then (None, w, processed)
     else case analyzeElement w child of
        (Inl e, w1) \<Rightarrow> (Some e, w1, child # processed)
      | (Inr childAnalysis, w1) \<Rightarrow>
          if shouldInvert childAnalysis \<and> \<not> shouldPreserve childAnalysis
          then (None, transformElement w1 child, child # processed)
          else (None, w1, child # processed))"

definition observeAdded :: "world \<times> node list \<Rightarrow> addedNode \<Rightarrow> exn option \<times> world \<times> node list" where
  "observeAdded s added = (case s of (w, processed) \<Rightarrow>
     case added of
       ElementNode d \<Rightarrow>
         if nodeType added = 1 \<and> ident d \<notin> set processed
         then (case analyzeElement w (ident d) of
                 (Inl e, w1) \<Rightarrow> (Some e, w1, ident d # processed)
               | (Inr a, w1) \<Rightarrow>
                   if shouldInvert a \<and> \<not> shouldPreserve a
                   then forEach (descendants d) observeChild
                          (transformElement w1 (ident d), ident d # processed)
                   else (None, w1, ident d # processed))
         else (None, w, processed)
     | _ \<Rightarrow> (None, w, processed))"

definition observeMutation :: "world \<times> node list \<Rightarrow> mutation \<Rightarrow> exn option \<times> world \<times> node list" where
  "observeMutation s m = (case s of (w, processed) \<Rightarrow>
     case m of
       ChildList addedNodes \<Rightarrow> forEach addedNodes observeAdded (w, processed)
     | Attributes attributeName target \<Rightarrow>
         if attributeName = js ''style'' \<and> target \<notin> set processed
         then (case analyzeElement w target of
                 (Inl e, w1) \<Rightarrow> (Some e, w1, target # processed)
               | (Inr a, w1) \<Rightarrow>
                   if shouldInvert a \<and> \<not> shouldPreserve a
                   then (None, transformElement w1 target, target # processed)
                   else (None, w1, target # processed))
         else (None, w, processed))"

definition observerCallback :: "world \<Rightarrow> mutation list \<Rightarrow> exn option \<times> world" where
  "observerCallback w mutations =
     (case forEach mutations observeMutation (w, []) of (r, w1, processed) \<Rightarrow> (r, w1))"

text \<open>
  How the world moves. Between two runs of the script the page may change in any way and
  a message may replace the settings. A run is a full pass, a re-application of the
  settings or one delivery of mutation records, and may end by an uncaught exception,
  which leaves the world as it is at that point. The analyzer may classify any element,
  and \<open>transformElement\<close> is only ever called on an element whose classification says
  invert and not preserve; these two calls are steps of their own, so that the world in
  the middle of a run is covered too.
\<close>

definition initial :: "world \<Rightarrow> bool" where
  "initial w = (writes w = [] \<and> elementColorMap w = Map.empty \<and> elementCache w = Map.empty
     \<and> \<not> mutationObserver w)"

inductive step :: "world \<Rightarrow> world \<Rightarrow> bool" where
  page: "step w (w\<lparr>document := d, elements := es, cascade := cas\<rparr>)"
| message: "step w (w\<lparr>currentSettings := st\<rparr>)"
| full: "step w (snd (applyTheme w))"
| update: "step w (snd (updateThemeWithNewSettings w))"
| observed: "step w (snd (observerCallback w ms))"
| classify: "step w (snd (analyzeElement w n))"
| transform: "elementCache w n = Some a \<Longrightarrow> shouldInvert a \<Longrightarrow> \<not> shouldPreserve a
     \<Longrightarrow> step w (transformElement w n)"

definition later :: "world \<Rightarrow> world \<Rightarrow> bool" where
  "later = step\<^sup>*\<^sup>*"

inductive reachable :: "world \<Rightarrow> bool" where
  start: "initial w \<Longrightarrow> reachable w"
| after: "reachable w \<Longrightarrow> step w w' \<Longrightarrow> reachable w'"

text \<open>
  The elementary calls every run is made of, and the properties of the two caches and of
  the write log that they keep.
\<close>

inductive atomic :: "world \<Rightarrow> world \<Rightarrow> bool" where
  a_classify: "atomic w (snd (analyzeElement w n))"
| a_transform: "elementCache w n = Some a \<Longrightarrow> shouldInvert a \<Longrightarrow> \<not> shouldPreserve a
     \<Longrightarrow> atomic w (transformElement w n)"
| a_recolor: "elementColorMap w n = Some cd \<Longrightarrow> atomic w (writeColors w n cd)"
| a_observe: "atomic w (startMutationObserver w)"

definition cacheSound :: "world \<Rightarrow> bool" where
  "cacheSound w = (\<forall>n a. elementCache w n = Some a \<longrightarrow>
     shouldPreserve a = isMedia a \<and> shouldInvert a = (\<not> isMedia a))"

definition colorMapClassified :: "world \<Rightarrow> bool" where
  "colorMapClassified w = (\<forall>n. elementColorMap w n \<noteq> None \<longrightarrow>
     (\<exists>a. elementCache w n = Some a \<and> shouldInvert a \<and> \<not> shouldPreserve a))"

definition writesGuarded :: "world \<Rightarrow> bool" where
  "writesGuarded w = (\<forall>n p v. (n, p, v) \<in> set (writes w) \<longrightarrow>
     (\<exists>cd. elementColorMap w n = Some cd
        \<and> (p = BackgroundColor \<longrightarrow> originalBg cd \<noteq> [] \<and> originalBg cd \<noteq> transparent)))"

definition invariant :: "world \<Rightarrow> bool" where
  "invariant w = (cacheSound w \<and> colorMapClassified w \<and> writesGuarded w)"

definition keeps :: "world \<Rightarrow> world \<Rightarrow> bool" where
  "keeps w w' = ((\<forall>n a. elementCache w n = Some a \<longrightarrow> elementCache w' n = Some a)
     \<and> (\<forall>n cd. elementColorMap w n = Some cd \<longrightarrow> elementColorMap w' n = Some cd)
     \<and> set (writes w) \<subseteq> set (writes w'))"

section \<open>Example pages\<close>

text \<open>
  A page whose computed styles do not depend on what the script wrote, with the state of a
  freshly loaded script.
\<close>

definition page :: "dom \<Rightarrow> (node \<Rightarrow> element) \<Rightarrow> (node \<Rightarrow> cstyle option) \<Rightarrow> settings \<Rightarrow> world" where
  "page d es cs st = \<lparr>document = d, elements = es, cascade = (\<lambda>log. cs), writes = [],
     currentSettings = st, elementColorMap = Map.empty, elementCache = Map.empty,
     mutationObserver = False\<rparr>"

definition tagged :: "string \<Rightarrow> element" where
  "tagged t = \<lparr>tagName = js t, closestSvg = False, srcAttr = None, dataAttr = None,
     classListLength = 0\<rparr>"

definition darkText :: cstyle where
  "darkText = \<lparr>backgroundImage = js ''none'', color = js ''rgb(10, 10, 10)'',
     backgroundColor = transparent, borderColor = js ''rgb(10, 10, 10)''\<rparr>"

definition unitSettings :: settings where
  "unitSettings = \<lparr>enabled = True, brightness = Some 1, contrast = Some 1, warmth = Some 0\<rparr>"

text \<open>A \<open>div\<close> with a background image that holds a paragraph.\<close>

definition heroPage :: world where
  "heroPage = page (Element 0 [Element 1 [Element 2 []]])
     (\<lambda>n. if n = 1 then tagged ''DIV'' else if n = 2 then tagged ''P'' else tagged ''HTML'')
     (\<lambda>n. if n = 1 then Some (darkText\<lparr>backgroundImage := js ''url(hero.png)''\<rparr>)
           else Some darkText)
     unitSettings"

text \<open>A \<open>div\<close> for which \<open>getComputedStyle\<close> throws, followed by a paragraph.\<close>

definition brokenPage :: world where
  "brokenPage = page (Element 0 [Element 1 [], Element 2 []])
     (\<lambda>n. if n = 1 then tagged ''DIV'' else if n = 2 then tagged ''P'' else tagged ''HTML'')
     (\<lambda>n. if n = 1 then None else Some darkText)
     unitSettings"

text \<open>A paragraph whose text, background and border are all fully transparent.\<close>

definition ghostPage :: world where
  "ghostPage = page (Element 0 [Element 1 []])
     (\<lambda>n. if n = 1 then tagged ''P'' else tagged ''HTML'')
     (\<lambda>n. Some \<lparr>backgroundImage = js ''none'', color = transparent,
                 backgroundColor = transparent, borderColor = transparent\<rparr>)
     unitSettings"

text \<open>An image next to a paragraph.\<close>

definition galleryPage :: world where
  "galleryPage = page (Element 0 [Element 1 [], Element 2 []])
     (\<lambda>n. if n = 1 then tagged ''IMG'' else if n = 2 then tagged ''P'' else tagged ''HTML'')
     (\<lambda>n. Some darkText)
     unitSettings"


section \<open>Facts about the matcher\<close>

lemma reLit_append [simp]: "reLit p (p @ s) = Some s"
  by (simp add: reLit_def)

lemma rePlus_prefix:
  assumes "ds \<noteq> []" "list_all cls ds" "rest = [] \<or> \<not> cls (hd rest)"
  shows "rePlus cls (ds @ rest) = Some (ds, rest)"
proof -
  from assms(2) have all: "\<forall>x\<in>set ds. cls x" by (simp add: list_all_iff)
  from assms(3) have tw: "takeWhile cls rest = []" and dw: "dropWhile cls rest = rest"
    by (cases rest; auto)+
  from all tw have "takeWhile cls (ds @ rest) = ds" by (simp add: takeWhile_append2)
  moreover from all dw have "dropWhile cls (ds @ rest) = rest" by (simp add: dropWhile_append2)
  ultimately show ?thesis using assms(1) by (simp add: rePlus_def)
qed

lemma reStar_prefix:
  assumes "list_all cls ws" "rest = [] \<or> \<not> cls (hd rest)"
  shows "reStar cls (ws @ rest) = rest"
proof -
  from assms(1) have all: "\<forall>x\<in>set ws. cls x" by (simp add: list_all_iff)
  from assms(2) have "dropWhile cls rest = rest" by (cases rest; auto)
  with all show ?thesis by (simp add: reStar_def dropWhile_append2)
qed

lemma js_comma: "js '','' = [44]" by (simp add: js_def)
lemma js_rparen: "js '')'' = [41]" by (simp add: js_def)
lemma js_rgb: "js ''rgb('' = [114, 103, 98, 40]" by (simp add: js_def)
lemma js_rgba: "js ''rgba('' = [114, 103, 98, 97, 40]" by (simp add: js_def)

lemma reLit_single [simp]: "reLit [c] (c # s) = Some s"
  by (simp add: reLit_def)

lemma digit_not_space: "isDigit c \<Longrightarrow> \<not> isSpace c"
  by (auto simp: isDigit_def isSpace_def)

lemma rePlus_stop:
  assumes "ds \<noteq> []" "list_all cls ds" "\<not> cls c"
  shows "rePlus cls (ds @ c # rest) = Some (ds, c # rest)"
  using assms by (intro rePlus_prefix) simp_all

lemma reStar_stop:
  assumes "list_all cls ws" "\<not> cls c"
  shows "reStar cls (ws @ c # rest) = c # rest"
  using assms by (intro reStar_prefix) simp_all

lemma reStar_digits:
  assumes "list_all isSpace ws" "digitString g"
  shows "reStar isSpace (ws @ g @ rest) = g @ rest"
proof -
  from assms(2) obtain d g' where g: "g = d # g'" and d: "isDigit d"
    by (cases g) (auto simp: digitString_def)
  from reStar_stop[OF assms(1) digit_not_space[OF d], of "g' @ rest"] show ?thesis
    by (simp add: g)
qed

lemma reStar_alpha:
  assumes "list_all isSpace ws" "a \<noteq> []" "list_all isDigitOrDot a"
  shows "reStar isSpace (ws @ a @ rest) = a @ rest"
proof -
  from assms(2,3) obtain d a' where a: "a = d # a'" and d: "isDigitOrDot d"
    by (cases a) auto
  from d have "\<not> isSpace d" by (auto simp: isDigitOrDot_def isDigit_def isSpace_def)
  from reStar_stop[OF assms(1) this, of "a' @ rest"] show ?thesis
    by (simp add: a)
qed

lemma not_digit_44: "\<not> isDigit 44" and not_digit_41: "\<not> isDigit 41" and not_dd_41: "\<not> isDigitOrDot 41"
  by (simp_all add: isDigit_def isDigitOrDot_def)

lemma matchRgbAt_shape:
  assumes "digitString r" "digitString g" "digitString b" "list_all isSpace w1" "list_all isSpace w2"
  shows "matchRgbAt (rgbString r w1 g w2 b @ rest) = Some (r, g, b)"
proof -
  have r: "r \<noteq> []" "list_all isDigit r" and g: "g \<noteq> []" "list_all isDigit g"
    and b: "b \<noteq> []" "list_all isDigit b"
    using assms(1-3) by (simp_all add: digitString_def)
  have 1: "rePlus isDigit (r @ 44 # w1 @ g @ 44 # w2 @ b @ 41 # rest) = Some (r, 44 # w1 @ g @ 44 # w2 @ b @ 41 # rest)"
    by (rule rePlus_stop[OF r not_digit_44])
  have 2: "reStar isSpace (w1 @ g @ 44 # w2 @ b @ 41 # rest) = g @ 44 # w2 @ b @ 41 # rest"
    by (rule reStar_digits[OF assms(4) assms(2)])
  have 3: "rePlus isDigit (g @ 44 # w2 @ b @ 41 # rest) = Some (g, 44 # w2 @ b @ 41 # rest)"
    by (rule rePlus_stop[OF g not_digit_44])
  have 4: "reStar isSpace (w2 @ b @ 41 # rest) = b @ 41 # rest"
    by (rule reStar_digits[OF assms(5) assms(3)])
  have 5: "rePlus isDigit (b @ 41 # rest) = Some (b, 41 # rest)"
    by (rule rePlus_stop[OF b not_digit_41])
  show ?thesis
    unfolding matchRgbAt_def rgbString_def js_comma js_rparen
    by (simp add: 1 2 3 4 5)
qed

lemma matchRgbaAt_shape:
  assumes "digitString r" "digitString g" "digitString b" "list_all isSpace w1" "list_all isSpace w2"
    "list_all isSpace w3" "a \<noteq> []" "list_all isDigitOrDot a"
  shows "matchRgbaAt (rgbaString r w1 g w2 b w3 a @ rest) = Some (r, g, b)"
proof -
  have r: "r \<noteq> []" "list_all isDigit r" and g: "g \<noteq> []" "list_all isDigit g"
    and b: "b \<noteq> []" "list_all isDigit b"
    using assms(1-3) by (simp_all add: digitString_def)
  have 1: "rePlus isDigit (r @ 44 # w1 @ g @ 44 # w2 @ b @ 44 # w3 @ a @ 41 # rest)
      = Some (r, 44 # w1 @ g @ 44 # w2 @ b @ 44 # w3 @ a @ 41 # rest)"
    by (rule rePlus_stop[OF r not_digit_44])
  have 2: "reStar isSpace (w1 @ g @ 44 # w2 @ b @ 44 # w3 @ a @ 41 # rest) = g @ 44 # w2 @ b @ 44 # w3 @ a @ 41 # rest"
    by (rule reStar_digits[OF assms(4) assms(2)])
  have 3: "rePlus isDigit (g @ 44 # w2 @ b @ 44 # w3 @ a @ 41 # rest) = Some (g, 44 # w2 @ b @ 44 # w3 @ a @ 41 # rest)"
    by (rule rePlus_stop[OF g not_digit_44])
  have 4: "reStar isSpace (w2 @ b @ 44 # w3 @ a @ 41 # rest) = b @ 44 # w3 @ a @ 41 # rest"
    by (rule reStar_digits[OF assms(5) assms(3)])
  have 5: "rePlus isDigit (b @ 44 # w3 @ a @ 41 # rest) = Some (b, 44 # w3 @ a @ 41 # rest)"
    by (rule rePlus_stop[OF b not_digit_44])
  have 6: "reStar isSpace (w3 @ a @ 41 # rest) = a @ 41 # rest"
    by (rule reStar_alpha[OF assms(6-8)])
  have 7: "rePlus isDigitOrDot (a @ 41 # rest) = Some (a, 41 # rest)"
    by (rule rePlus_stop[OF assms(7,8) not_dd_41])
  show ?thesis
    unfolding matchRgbaAt_def rgbaString_def js_comma js_rparen
    by (simp add: 1 2 3 4 5 6 7)
qed

lemma reSearch_here: "m s = Some x \<Longrightarrow> reSearch m s = Some x"
  by (cases s) simp_all

lemma reLit_SomeD: "reLit p s = Some t \<Longrightarrow> s = p @ t"
  by (auto simp: reLit_def split: if_splits) (metis append_take_drop_id)

lemma matchRgbAt_first: "matchRgbAt s = Some x \<Longrightarrow> \<exists>t. s = 114 # t"
proof -
  assume "matchRgbAt s = Some x"
  then obtain s1 where "reLit (js ''rgb('') s = Some s1"
    by (auto simp: matchRgbAt_def split: Option.bind_splits)
  from reLit_SomeD[OF this] show ?thesis by (simp add: js_rgb)
qed

lemma reSearch_no_r:
  "114 \<notin> set s \<Longrightarrow> reSearch matchRgbAt s = None"
proof (induction s)
  case Nil
  show ?case using matchRgbAt_first[of "[]"] by (cases "matchRgbAt []") auto
next
  case (Cons c cs)
  have "matchRgbAt (c # cs) = None"
  proof (cases "matchRgbAt (c # cs)")
    case (Some x)
    from matchRgbAt_first[OF this] Cons.prems show ?thesis by simp
  qed simp
  with Cons show ?case by simp
qed

lemma digit_not_r: "list_all isDigit s \<Longrightarrow> 114 \<notin> set s"
  by (auto simp: list_all_iff isDigit_def)
lemma space_not_r: "list_all isSpace s \<Longrightarrow> 114 \<notin> set s"
  by (auto simp: list_all_iff isSpace_def)
lemma dd_not_r: "list_all isDigitOrDot s \<Longrightarrow> 114 \<notin> set s"
  by (auto simp: list_all_iff isDigit_def isDigitOrDot_def)

lemma rgba_not_rgb:
  assumes "digitString r" "digitString g" "digitString b" "list_all isSpace w1" "list_all isSpace w2"
    "list_all isSpace w3" "list_all isDigitOrDot a"
  shows "reSearch matchRgbAt (rgbaString r w1 g w2 b w3 a) = None"
proof -
  let ?t = "[103, 98, 97, 40] @ r @ 44 # w1 @ g @ 44 # w2 @ b @ 44 # w3 @ a @ [41]"
  have s: "rgbaString r w1 g w2 b w3 a = 114 # ?t"
    by (simp add: rgbaString_def js_rgba js_comma js_rparen)
  have "114 \<notin> set ?t"
    using assms digit_not_r[of r] digit_not_r[of g] digit_not_r[of b]
      space_not_r[of w1] space_not_r[of w2] space_not_r[of w3] dd_not_r[of a]
    by (simp add: digitString_def)
  then have tail: "reSearch matchRgbAt ?t = None" by (rule reSearch_no_r)
  have "matchRgbAt (114 # ?t) = None"
    by (simp add: matchRgbAt_def reLit_def js_rgb)
  with tail show ?thesis unfolding s by simp
qed

lemma digitsOf_digits: "digitString (digitsOf n)"
proof (induction n rule: digitsOf.induct)
  case (1 n)
  show ?case
  proof (cases "n < 10")
    case True
    then show ?thesis by (subst digitsOf.simps) (simp add: digitString_def isDigit_def)
  next
    case False
    with 1 have "digitString (digitsOf (n div 10))" by simp
    moreover have "n mod 10 < 10" by simp
    ultimately show ?thesis using False
      by (subst digitsOf.simps) (simp add: digitString_def isDigit_def)
  qed
qed

lemma parseRGB_rgb:
  assumes "digitString r" "digitString g" "digitString b" "list_all isSpace w1" "list_all isSpace w2"
  shows "parseRGB (rgbString r w1 g w2 b) = Some (parseInt r, parseInt g, parseInt b)"
proof -
  have "matchRgbAt (rgbString r w1 g w2 b) = Some (r, g, b)"
    using matchRgbAt_shape[OF assms, of "[]"] by simp
  then have "reSearch matchRgbAt (rgbString r w1 g w2 b) = Some (r, g, b)"
    by (rule reSearch_here)
  then show ?thesis by (simp add: parseRGB_def)
qed

lemma parseRGB_rgba:
  assumes "digitString r" "digitString g" "digitString b" "list_all isSpace w1" "list_all isSpace w2"
    "list_all isSpace w3" "a \<noteq> []" "list_all isDigitOrDot a"
  shows "parseRGB (rgbaString r w1 g w2 b w3 a) = Some (parseInt r, parseInt g, parseInt b)"
proof -
  have "matchRgbaAt (rgbaString r w1 g w2 b w3 a) = Some (r, g, b)"
    using matchRgbaAt_shape[OF assms, of "[]"] by simp
  then have "reSearch matchRgbaAt (rgbaString r w1 g w2 b w3 a) = Some (r, g, b)"
    by (rule reSearch_here)
  with rgba_not_rgb[OF assms(1-6) assms(8)] show ?thesis by (simp add: parseRGB_def)
qed


lemma rePlus_SomeD: "rePlus cls s = Some (a, t) \<Longrightarrow> s = a @ t \<and> a \<noteq> [] \<and> list_all cls a"
  by (auto simp: rePlus_def list_all_iff split: if_splits dest: set_takeWhileD)

lemma reStar_D: "\<exists>ws. s = ws @ reStar cls s \<and> list_all cls ws"
proof
  show "s = takeWhile cls s @ reStar cls s \<and> list_all cls (takeWhile cls s)"
    by (auto simp: reStar_def list_all_iff dest: set_takeWhileD)
qed

lemma matchRgbAt_SomeD:
  assumes "matchRgbAt s = Some (r, g, b)"
  shows "\<exists>w1 w2 rest. s = rgbString r w1 g w2 b @ rest \<and> digitString r \<and> digitString g
     \<and> digitString b \<and> list_all isSpace w1 \<and> list_all isSpace w2"
proof -
  from assms obtain s1 s2 s3 s4 s5 s6 s7 where
    1: "reLit (js ''rgb('') s = Some s1" and 2: "rePlus isDigit s1 = Some (r, s2)"
    and 3: "reLit (js '','') s2 = Some s3" and 4: "rePlus isDigit (reStar isSpace s3) = Some (g, s4)"
    and 5: "reLit (js '','') s4 = Some s5" and 6: "rePlus isDigit (reStar isSpace s5) = Some (b, s6)"
    and 7: "reLit (js '')'') s6 = Some s7"
    unfolding matchRgbAt_def by (auto split: Option.bind_splits)
  obtain w1 where w1: "s3 = w1 @ reStar isSpace s3" "list_all isSpace w1" using reStar_D by blast
  obtain w2 where w2: "s5 = w2 @ reStar isSpace s5" "list_all isSpace w2" using reStar_D by blast
  note a = reLit_SomeD[OF 1] rePlus_SomeD[OF 2] reLit_SomeD[OF 3] rePlus_SomeD[OF 4]
    reLit_SomeD[OF 5] rePlus_SomeD[OF 6] reLit_SomeD[OF 7]
  have "s = rgbString r w1 g w2 b @ s7"
    unfolding rgbString_def using a w1(1) w2(1) by (metis append.assoc)
  with a w1(2) w2(2) show ?thesis unfolding digitString_def by blast
qed

lemma matchRgbaAt_SomeD:
  assumes "matchRgbaAt s = Some (r, g, b)"
  shows "\<exists>w1 w2 w3 a rest. s = rgbaString r w1 g w2 b w3 a @ rest \<and> digitString r \<and> digitString g
     \<and> digitString b \<and> list_all isSpace w1 \<and> list_all isSpace w2 \<and> list_all isSpace w3
     \<and> a \<noteq> [] \<and> list_all isDigitOrDot a"
proof -
  from assms obtain s1 s2 s3 s4 s5 s6 s7 s8 s9 al where
    1: "reLit (js ''rgba('') s = Some s1" and 2: "rePlus isDigit s1 = Some (r, s2)"
    and 3: "reLit (js '','') s2 = Some s3" and 4: "rePlus isDigit (reStar isSpace s3) = Some (g, s4)"
    and 5: "reLit (js '','') s4 = Some s5" and 6: "rePlus isDigit (reStar isSpace s5) = Some (b, s6)"
    and 7: "reLit (js '','') s6 = Some s7" and 8: "rePlus isDigitOrDot (reStar isSpace s7) = Some (al, s8)"
    and 9: "reLit (js '')'') s8 = Some s9"
    unfolding matchRgbaAt_def by (auto split: Option.bind_splits)
  obtain w1 where w1: "s3 = w1 @ reStar isSpace s3" "list_all isSpace w1" using reStar_D by blast
  obtain w2 where w2: "s5 = w2 @ reStar isSpace s5" "list_all isSpace w2" using reStar_D by blast
  obtain w3 where w3: "s7 = w3 @ reStar isSpace s7" "list_all isSpace w3" using reStar_D by blast
  note a = reLit_SomeD[OF 1] rePlus_SomeD[OF 2] reLit_SomeD[OF 3] rePlus_SomeD[OF 4]
    reLit_SomeD[OF 5] rePlus_SomeD[OF 6] reLit_SomeD[OF 7] rePlus_SomeD[OF 8] reLit_SomeD[OF 9]
  have "s = rgbaString r w1 g w2 b w3 al @ s9"
    unfolding rgbaString_def using a w1(1) w2(1) w3(1) by (metis append.assoc)
  with a w1(2) w2(2) w3(2) show ?thesis unfolding digitString_def by blast
qed

lemma reSearch_SomeD: "reSearch m s = Some x \<Longrightarrow> \<exists>pre suf. s = pre @ suf \<and> m suf = Some x"
proof (induction s)
  case Nil
  then show ?case by simp
next
  case (Cons c cs)
  show ?case
  proof (cases "m (c # cs)")
    case None
    with Cons.prems have "reSearch m cs = Some x" by simp
    from Cons.IH[OF this] obtain pre suf where "cs = pre @ suf" "m suf = Some x" by blast
    then have "c # cs = (c # pre) @ suf \<and> m suf = Some x" by simp
    then show ?thesis by blast
  next
    case (Some y)
    with Cons.prems have "m (c # cs) = Some x" by simp
    then have "c # cs = [] @ (c # cs) \<and> m (c # cs) = Some x" by simp
    then show ?thesis by blast
  qed
qed

lemma parseRGB_SomeD:
  assumes "parseRGB s = Some t"
  shows "\<exists>pre post r g b w1 w2 w3 a.
     digitString r \<and> digitString g \<and> digitString b \<and> list_all isSpace w1 \<and> list_all isSpace w2
     \<and> t = (parseInt r, parseInt g, parseInt b)
     \<and> (s = pre @ rgbString r w1 g w2 b @ post
        \<or> (list_all isSpace w3 \<and> a \<noteq> [] \<and> list_all isDigitOrDot a
           \<and> s = pre @ rgbaString r w1 g w2 b w3 a @ post))"
proof (cases "reSearch matchRgbAt s")
  case (Some m)
  obtain r g b where m: "m = (r, g, b)" by (cases m)
  from assms Some m have t: "t = (parseInt r, parseInt g, parseInt b)" by (simp add: parseRGB_def)
  from reSearch_SomeD[OF Some] m obtain pre suf where s: "s = pre @ suf" "matchRgbAt suf = Some (r, g, b)"
    by blast
  from matchRgbAt_SomeD[OF s(2)] s(1) t show ?thesis by blast
next
  case None
  with assms obtain r g b where m: "reSearch matchRgbaAt s = Some (r, g, b)"
    and t: "t = (parseInt r, parseInt g, parseInt b)"
    by (auto simp: parseRGB_def split: option.splits)
  from reSearch_SomeD[OF m] obtain pre suf where s: "s = pre @ suf" "matchRgbaAt suf = Some (r, g, b)"
    by blast
  from matchRgbaAt_SomeD[OF s(2)] s(1) t show ?thesis by blast
qed

section \<open>Facts about the colour arithmetic\<close>

lemma linearize_nonneg: "0 \<le> c \<Longrightarrow> 0 \<le> linearize c"
  by (simp add: linearize_def Let_def)

lemma getLuminance_nonneg: "0 \<le> getLuminance (real r) (real g) (real b)"
  unfolding getLuminance_def
  by (intro add_nonneg_nonneg mult_nonneg_nonneg linearize_nonneg) simp_all



lemma clamp_plain: "max 0 (min 255 y) = spec_clamp (y::real)"
  by (simp add: spec_clamp_def max_def min_def)

lemma clamp_hi: "spec_clamp (min 255 y) = spec_clamp (y::real)"
  by (simp add: spec_clamp_def max_def min_def)

lemma clamp_lo: "spec_clamp (max 0 y) = spec_clamp (y::real)"
  by (simp add: spec_clamp_def max_def min_def)

lemma Math_round_round: "Math_round x = round x"
  by (simp add: Math_round_def round_def)

lemma invertChannels_refines:
  "invertChannels rgb st =
     spec_transform rgb (nullish (brightness st) 1) (nullish (contrast st) 1) (nullish (warmth st) 0)"
proof (cases rgb)
  case (fields r g b)
  show ?thesis
  proof (cases "nullish (warmth st) 0 > 0")
    case True
    then show ?thesis unfolding fields invertChannels_def spec_transform_def Let_def
      by (simp only: Math_round_round clamp_hi clamp_lo clamp_plain if_True prod.case)
  next
    case False
    then show ?thesis unfolding fields invertChannels_def spec_transform_def Let_def
      by (simp only: Math_round_round clamp_hi clamp_lo clamp_plain if_False prod.case)
  qed
qed

lemmas parse_eval = parseRGB_def matchRgbAt_def matchRgbaAt_def js_def reLit_def rePlus_def
  reStar_def isDigit_def isSpace_def isDigitOrDot_def parseInt_def

lemma parse_scenario1: "parseRGB (js ''rgb(10,10,10)'') = Some (10, 10, 10)"
  by (simp add: parse_eval)

lemma parse_scenario2: "parseRGB (js ''rgb(255,255,255)'') = Some (255, 255, 255)"
  by (simp add: parse_eval)

lemma format_eval:
  "formatRgb (245, 245, 245) = js ''rgb(245, 245, 245)''"
  "formatRgb (25, 15, 0) = js ''rgb(25, 15, 0)''"
  "formatRgb (255, 255, 255) = js ''rgb(255, 255, 255)''"
  by (simp_all add: formatRgb_def numberToString_def digitsOf.simps js_def)

lemma channels_scenario1:
  "invertChannels (10, 10, 10)
     \<lparr>enabled = e, brightness = Some 1, contrast = Some 1, warmth = Some 0\<rparr> = (245, 245, 245)"
  unfolding invertChannels_def Let_def nullish_def Math_round_def by simp

lemma channels_scenario2:
  "invertChannels (255, 255, 255)
     \<lparr>enabled = e, brightness = Some 1, contrast = Some 1, warmth = Some 1\<rparr> = (25, 15, 0)"
  unfolding invertChannels_def Let_def nullish_def Math_round_def by simp

section \<open>The claims about the colour model\<close>

text \<open>
  C3. \<open>invertForDarkTheme\<close> computes, on the parsed triple, what the five steps of the
  specification describe: inversion, brightness about 128, contrast about 128, warmth
  (+25, +15, -40 times the warmth, only when it is positive), clamping and rounding.
  With brightness 1, contrast 1 and warmth 0 the colour rgb(10,10,10) becomes
  rgb(245, 245, 245); with warmth 1 the colour rgb(255,255,255) becomes rgb(25, 15, 0).
\<close>

theorem transform_pipeline_steps:
  "invertChannels rgb st =
     spec_transform rgb (nullish (brightness st) 1) (nullish (contrast st) 1) (nullish (warmth st) 0)
   \<and> invertForDarkTheme (js ''rgb(10,10,10)'')
        \<lparr>enabled = True, brightness = Some 1, contrast = Some 1, warmth = Some 0\<rparr>
      = js ''rgb(245, 245, 245)''
   \<and> invertForDarkTheme (js ''rgb(255,255,255)'')
        \<lparr>enabled = True, brightness = Some 1, contrast = Some 1, warmth = Some 1\<rparr>
      = js ''rgb(25, 15, 0)''"
  unfolding invertForDarkTheme_def parse_scenario1 parse_scenario2
  by (simp only: invertChannels_refines[symmetric] channels_scenario1 channels_scenario2
        format_eval option.case simp_thms)

text \<open>
  C4 speaks of every slider value, also far outside the documented ranges. There the
  source leaves the reals: for the colour \<open>rgb(0, 0, 0)\<close>, brightness \<open>2^1023\<close> and contrast
  0 the product \<open>127 * 2^1023\<close> is \<open>Infinity\<close>, \<open>Infinity * 0\<close> is NaN, the clamp and
  \<open>Math.round\<close> return NaN, and the result is \<open>rgb(NaN, NaN, NaN)\<close>. The bound of
  \<open>invertChannels_range\<close> is a fact of the arithmetic over the reals, where no product
  overflows; it is not a statement about the source at such values, and no theorem is
  given for C4.
\<close>

text \<open>
  C9. The contrast ratio of two colour triples does not depend on their order, and the
  ratio of a triple with itself is 1.
\<close>

theorem contrast_ratio_symmetric_identity:
  "getContrastRatio a b = getContrastRatio b a \<and> getContrastRatio a a = 1"
proof
  show "getContrastRatio a b = getContrastRatio b a"
    by (cases a; cases b) (simp add: getContrastRatio_def Let_def max.commute min.commute)
next
  obtain r g b' where a: "a = (r, g, b')" by (cases a)
  have "0 \<le> getLuminance (real r) (real g) (real b')" by (rule getLuminance_nonneg)
  moreover have "(0::real) < 0.05" by simp
  ultimately have "0 < getLuminance (real r) (real g) (real b') + 0.05" by (rule add_nonneg_pos)
  then have "getLuminance (real r) (real g) (real b') + 0.05 \<noteq> 0" by simp
  then show "getContrastRatio a a = 1"
    by (simp add: a getContrastRatio_def Let_def)
qed

text \<open>
  C6, as the claim states it, fails: white space before a comma or next to a parenthesis
  makes \<open>parseRGB\<close> return null, and a gradient, which is another syntax, is parsed as
  the first colour it contains.
\<close>

theorem parseRGB_whitespace_counterexample:
  "parseRGB (js ''rgb( 10 , 20 , 30 )'') = None
   \<and> parseRGB (js ''linear-gradient(rgb(1, 2, 3), rgb(4, 5, 6))'') = Some (1, 2, 3)"
  by (simp add: parse_eval)

text \<open>
  C6, amended. \<open>parseRGB\<close> returns the three integers of every string of the shape
  \<open>rgb(r,g,b)\<close> or \<open>rgba(r,g,b,a)\<close> in which white space stands only directly after the
  commas; whenever it returns a triple, the string contains a substring of one of these
  two shapes and the triple is read from it; so it returns null for every string without
  such a substring, among them named colours, hex colours and \<open>hsl()\<close>.
\<close>

theorem parseRGB_grammar:
  "(digitString r \<and> digitString g \<and> digitString b \<and> list_all isSpace w1 \<and> list_all isSpace w2
      \<longrightarrow> parseRGB (rgbString r w1 g w2 b) = Some (parseInt r, parseInt g, parseInt b))
   \<and> (digitString r \<and> digitString g \<and> digitString b \<and> list_all isSpace w1 \<and> list_all isSpace w2
        \<and> list_all isSpace w3 \<and> alphaString a
      \<longrightarrow> parseRGB (rgbaString r w1 g w2 b w3 a) = Some (parseInt r, parseInt g, parseInt b))
   \<and> (parseRGB s = Some t
      \<longrightarrow> (\<exists>pre post r' g' b' v1 v2 v3 a'.
            digitString r' \<and> digitString g' \<and> digitString b' \<and> list_all isSpace v1
            \<and> list_all isSpace v2 \<and> t = (parseInt r', parseInt g', parseInt b')
            \<and> (s = pre @ rgbString r' v1 g' v2 b' @ post
               \<or> (list_all isSpace v3 \<and> a' \<noteq> [] \<and> list_all isDigitOrDot a'
                  \<and> s = pre @ rgbaString r' v1 g' v2 b' v3 a' @ post))))
   \<and> parseRGB (js ''red'') = None \<and> parseRGB (js ''#ff0000'') = None
   \<and> parseRGB (js ''hsl(0, 100%, 50%)'') = None"
proof (intro conjI impI)
  assume "digitString r \<and> digitString g \<and> digitString b \<and> list_all isSpace w1 \<and> list_all isSpace w2"
  then show "parseRGB (rgbString r w1 g w2 b) = Some (parseInt r, parseInt g, parseInt b)"
    by (intro parseRGB_rgb) simp_all
next
  assume "digitString r \<and> digitString g \<and> digitString b \<and> list_all isSpace w1 \<and> list_all isSpace w2
        \<and> list_all isSpace w3 \<and> alphaString a"
  then show "parseRGB (rgbaString r w1 g w2 b w3 a) = Some (parseInt r, parseInt g, parseInt b)"
    by (intro parseRGB_rgba) (simp_all add: alphaString_def)
next
  assume "parseRGB s = Some t"
  then show "\<exists>pre post r' g' b' v1 v2 v3 a'.
            digitString r' \<and> digitString g' \<and> digitString b' \<and> list_all isSpace v1
            \<and> list_all isSpace v2 \<and> t = (parseInt r', parseInt g', parseInt b')
            \<and> (s = pre @ rgbString r' v1 g' v2 b' @ post
               \<or> (list_all isSpace v3 \<and> a' \<noteq> [] \<and> list_all isDigitOrDot a'
                  \<and> s = pre @ rgbaString r' v1 g' v2 b' v3 a' @ post))"
    by (rule parseRGB_SomeD)
qed (simp_all add: parse_eval)

lemma grammar_example:
  "digitString (js ''1'')" "digitString (js ''2'')" "digitString (js ''3'')"
  "list_all isSpace (js '' '')" "alphaString (js ''0.5'')"
  "parseInt (js ''1'') = 1" "parseInt (js ''2'') = 2" "parseInt (js ''3'') = 3"
  by (simp_all add: digitString_def alphaString_def js_def isDigit_def isSpace_def
        isDigitOrDot_def parseInt_def)

lemma parse_example: "parseRGB (js ''rgb(1, 2, 3)'') = Some (1, 2, 3)"
  by (simp add: parse_eval)

theorem parseRGB_grammar_witness:
  "parseRGB (rgbString (js ''1'') (js '' '') (js ''2'') (js '' '') (js ''3'')) = Some (1, 2, 3)
   \<and> parseRGB (rgbaString (js ''1'') (js '' '') (js ''2'') (js '' '') (js ''3'') (js '' '') (js ''0.5''))
       = Some (1, 2, 3)
   \<and> parseRGB (js ''rgb(1, 2, 3)'') = Some (1, 2, 3)
   \<and> (\<exists>pre post r' g' b' v1 v2 v3 a'.
            digitString r' \<and> digitString g' \<and> digitString b' \<and> list_all isSpace v1
            \<and> list_all isSpace v2 \<and> (1, 2, 3) = (parseInt r', parseInt g', parseInt b')
            \<and> (js ''rgb(1, 2, 3)'' = pre @ rgbString r' v1 g' v2 b' @ post
               \<or> (list_all isSpace v3 \<and> a' \<noteq> [] \<and> list_all isDigitOrDot a'
                  \<and> js ''rgb(1, 2, 3)'' = pre @ rgbaString r' v1 g' v2 b' v3 a' @ post)))"
proof -
  note g = parseRGB_grammar[where r = "js ''1''" and g = "js ''2''" and b = "js ''3''"
      and ?w1.0 = "js '' ''" and ?w2.0 = "js '' ''" and ?w3.0 = "js '' ''" and a = "js ''0.5''"
      and s = "js ''rgb(1, 2, 3)''" and t = "(1, 2, 3)"]
  from g grammar_example(1-4)
  have 1: "parseRGB (rgbString (js ''1'') (js '' '') (js ''2'') (js '' '') (js ''3''))
      = Some (parseInt (js ''1''), parseInt (js ''2''), parseInt (js ''3''))"
    by blast
  from g grammar_example(1-5)
  have 2: "parseRGB (rgbaString (js ''1'') (js '' '') (js ''2'') (js '' '') (js ''3'') (js '' '') (js ''0.5''))
      = Some (parseInt (js ''1''), parseInt (js ''2''), parseInt (js ''3''))"
    by blast
  from g parse_example
  have 3: "\<exists>pre post r' g' b' v1 v2 v3 a'.
            digitString r' \<and> digitString g' \<and> digitString b' \<and> list_all isSpace v1
            \<and> list_all isSpace v2 \<and> (1, 2, 3) = (parseInt r', parseInt g', parseInt b')
            \<and> (js ''rgb(1, 2, 3)'' = pre @ rgbString r' v1 g' v2 b' @ post
               \<or> (list_all isSpace v3 \<and> a' \<noteq> [] \<and> list_all isDigitOrDot a'
                  \<and> js ''rgb(1, 2, 3)'' = pre @ rgbaString r' v1 g' v2 b' v3 a' @ post))"
    by blast
  from 1 2 3 parse_example show ?thesis
    by (simp only: grammar_example(6-8) simp_thms)
qed

section \<open>Facts about the writes of the content script\<close>

lemma setStyle_simps [simp]:
  "writes (setStyle w n p v) = (n, p, v) # writes w"
  "elementColorMap (setStyle w n p v) = elementColorMap w"
  "elementCache (setStyle w n p v) = elementCache w"
  "currentSettings (setStyle w n p v) = currentSettings w"
  "document (setStyle w n p v) = document w"
  "mutationObserver (setStyle w n p v) = mutationObserver w"
  by (simp_all add: setStyle_def)

lemma writeBorder_simps [simp]:
  "elementColorMap (writeBorder w n cd) = elementColorMap w"
  "elementCache (writeBorder w n cd) = elementCache w"
  "currentSettings (writeBorder w n cd) = currentSettings w"
  "document (writeBorder w n cd) = document w"
  "mutationObserver (writeBorder w n cd) = mutationObserver w"
  by (simp_all add: writeBorder_def)

lemma writeColors_simps [simp]:
  "elementColorMap (writeColors w n cd) = elementColorMap w"
  "elementCache (writeColors w n cd) = elementCache w"
  "currentSettings (writeColors w n cd) = currentSettings w"
  "document (writeColors w n cd) = document w"
  "mutationObserver (writeColors w n cd) = mutationObserver w"
  by (simp_all add: writeColors_def Let_def split: sum.splits)

lemma writeBorder_mem:
  "(m, p, v) \<in> set (writes (writeBorder u n cd))
   \<Longrightarrow> (m, p, v) \<in> set (writes u) \<or> (m = n \<and> p = BorderColor)"
  by (auto simp: writeBorder_def split: if_splits)

lemma writeBorder_mono: "set (writes u) \<subseteq> set (writes (writeBorder u n cd))"
  by (auto simp: writeBorder_def)

lemma writeColors_alt:
  "\<exists>w1. (w1 = w \<or> (\<exists>v. w1 = setStyle w n Color v))
     \<and> (writeColors w n cd = w1 \<or> writeColors w n cd = writeBorder w1 n cd
        \<or> (originalBg cd \<noteq> [] \<and> originalBg cd \<noteq> transparent
           \<and> (\<exists>v. writeColors w n cd = writeBorder (setStyle w1 n BackgroundColor v) n cd)))"
proof -
  define w1 where "w1 = (if originalColor cd \<noteq> [] \<and> originalColor cd \<noteq> transparent
                then setStyle w n Color (invertForDarkTheme (originalColor cd) (currentSettings w))
                else w)"
  have 1: "w1 = w \<or> (\<exists>v. w1 = setStyle w n Color v)"
    unfolding w1_def by (cases "originalColor cd \<noteq> [] \<and> originalColor cd \<noteq> transparent") auto
  have 2: "writeColors w n cd = w1 \<or> writeColors w n cd = writeBorder w1 n cd
    \<or> (originalBg cd \<noteq> [] \<and> originalBg cd \<noteq> transparent
       \<and> (\<exists>v. writeColors w n cd = writeBorder (setStyle w1 n BackgroundColor v) n cd))"
    unfolding writeColors_def Let_def w1_def[symmetric]
    by (cases "isMediaElement w1 n") auto
  from 1 2 show ?thesis by blast
qed

lemma writeColors_mem:
  assumes "(m, p, v) \<in> set (writes (writeColors w n cd))"
  shows "(m, p, v) \<in> set (writes w)
    \<or> (m = n \<and> (p = BackgroundColor \<longrightarrow> originalBg cd \<noteq> [] \<and> originalBg cd \<noteq> transparent))"
proof -
  from writeColors_alt[of w n cd] obtain w1 where
    1: "w1 = w \<or> (\<exists>v. w1 = setStyle w n Color v)"
    and 2: "writeColors w n cd = w1 \<or> writeColors w n cd = writeBorder w1 n cd
        \<or> (originalBg cd \<noteq> [] \<and> originalBg cd \<noteq> transparent
           \<and> (\<exists>v. writeColors w n cd = writeBorder (setStyle w1 n BackgroundColor v) n cd))"
    by blast
  have w1: "\<And>x q y. (x, q, y) \<in> set (writes w1) \<Longrightarrow> (x, q, y) \<in> set (writes w) \<or> (x = n \<and> q = Color)"
    using 1 by auto
  from 2 consider "writeColors w n cd = w1" | "writeColors w n cd = writeBorder w1 n cd"
    | u where "originalBg cd \<noteq> []" "originalBg cd \<noteq> transparent"
        "writeColors w n cd = writeBorder (setStyle w1 n BackgroundColor u) n cd"
    by blast
  then show ?thesis
  proof cases
    case 1
    with assms w1[of m p v] show ?thesis by auto
  next
    case 2
    with assms have "(m, p, v) \<in> set (writes w1) \<or> (m = n \<and> p = BorderColor)"
      by (auto dest: writeBorder_mem)
    with w1[of m p v] show ?thesis by auto
  next
    case 3
    with assms have "(m, p, v) \<in> set (writes (setStyle w1 n BackgroundColor u)) \<or> (m = n \<and> p = BorderColor)"
      by (auto dest: writeBorder_mem)
    then have "(m, p, v) \<in> set (writes w1) \<or> m = n" by auto
    with w1[of m p v] 3(1,2) show ?thesis by auto
  qed
qed

lemma writeColors_mono: "set (writes w) \<subseteq> set (writes (writeColors w n cd))"
proof -
  from writeColors_alt[of w n cd] obtain w1 where
    1: "w1 = w \<or> (\<exists>v. w1 = setStyle w n Color v)"
    and 2: "writeColors w n cd = w1 \<or> writeColors w n cd = writeBorder w1 n cd
        \<or> (originalBg cd \<noteq> [] \<and> originalBg cd \<noteq> transparent
           \<and> (\<exists>v. writeColors w n cd = writeBorder (setStyle w1 n BackgroundColor v) n cd))"
    by blast
  from 1 have a: "set (writes w) \<subseteq> set (writes w1)" by auto
  from 2 consider "writeColors w n cd = w1" | "writeColors w n cd = writeBorder w1 n cd"
    | u where "writeColors w n cd = writeBorder (setStyle w1 n BackgroundColor u) n cd"
    by blast
  then show ?thesis
  proof cases
    case 1
    with a show ?thesis by simp
  next
    case 2
    with a writeBorder_mono[of w1 n cd] show ?thesis by simp
  next
    case 3
    have "set (writes w1) \<subseteq> set (writes (setStyle w1 n BackgroundColor u))" by auto
    with a writeBorder_mono[of "setStyle w1 n BackgroundColor u" n cd]
    have "set (writes w) \<subseteq> set (writes (writeBorder (setStyle w1 n BackgroundColor u) n cd))"
      by blast
    with 3 show ?thesis by simp
  qed
qed

lemma analyzeElement_cases:
  "snd (analyzeElement w n) = w
   \<or> (\<exists>a. elementCache w n = None \<and> fst (analyzeElement w n) = Inr a
        \<and> shouldPreserve a = isMedia a \<and> shouldInvert a = (\<not> isMedia a)
        \<and> snd (analyzeElement w n) = w\<lparr>elementCache := (elementCache w)(n \<mapsto> a)\<rparr>)"
  by (simp add: analyzeElement_def Let_def split: option.splits sum.splits)

lemma analyzeElement_result:
  assumes "analyzeElement w n = (Inr a, w1)"
  shows "elementCache w1 n = Some a"
  using assms by (auto simp: analyzeElement_def Let_def split: option.splits sum.splits if_splits)

lemma transformElement_cases:
  "transformElement w n = w
   \<or> (\<exists>cd. elementColorMap w n = Some cd \<and> transformElement w n = writeColors w n cd)
   \<or> (\<exists>cd. elementColorMap w n = None
         \<and> transformElement w n = writeColors (w\<lparr>elementColorMap := (elementColorMap w)(n \<mapsto> cd)\<rparr>) n cd)"
proof (cases "getComputedStyle w n")
  case (Inl e)
  then show ?thesis by (simp add: transformElement_def)
next
  case (Inr style)
  show ?thesis
  proof (cases "elementColorMap w n")
    case None
    with Inr have "transformElement w n = writeColors (w\<lparr>elementColorMap := (elementColorMap w)(n \<mapsto>
        \<lparr>originalColor = color style, originalBg = backgroundColor style,
          originalBorder = borderColor style\<rparr>)\<rparr>) n
        \<lparr>originalColor = color style, originalBg = backgroundColor style,
          originalBorder = borderColor style\<rparr>"
      by (simp add: transformElement_def Let_def)
    with None show ?thesis by blast
  next
    case (Some cd)
    with Inr show ?thesis by (simp add: transformElement_def)
  qed
qed

lemma invariant_recolor:
  assumes "invariant w" "elementColorMap w n = Some cd"
  shows "invariant (writeColors w n cd)"
proof -
  have "writesGuarded (writeColors w n cd)"
    unfolding writesGuarded_def
  proof (intro allI impI)
    fix m p v assume "(m, p, v) \<in> set (writes (writeColors w n cd))"
    from writeColors_mem[OF this]
    have "\<exists>cd'. elementColorMap w m = Some cd'
        \<and> (p = BackgroundColor \<longrightarrow> originalBg cd' \<noteq> [] \<and> originalBg cd' \<noteq> transparent)"
    proof
      assume "(m, p, v) \<in> set (writes w)"
      with assms(1) show ?thesis unfolding invariant_def writesGuarded_def by blast
    next
      assume "m = n \<and> (p = BackgroundColor \<longrightarrow> originalBg cd \<noteq> [] \<and> originalBg cd \<noteq> transparent)"
      with assms(2) show ?thesis by blast
    qed
    then show "\<exists>cd'. elementColorMap (writeColors w n cd) m = Some cd'
        \<and> (p = BackgroundColor \<longrightarrow> originalBg cd' \<noteq> [] \<and> originalBg cd' \<noteq> transparent)"
      by simp
  qed
  with assms(1) show ?thesis
    by (simp add: invariant_def cacheSound_def colorMapClassified_def)
qed

lemma invariant_classify:
  assumes "invariant w"
  shows "invariant (snd (analyzeElement w n))"
  using analyzeElement_cases[of w n]
proof
  assume "snd (analyzeElement w n) = w"
  with assms show ?thesis by simp
next
  assume "\<exists>a. elementCache w n = None \<and> fst (analyzeElement w n) = Inr a
        \<and> shouldPreserve a = isMedia a \<and> shouldInvert a = (\<not> isMedia a)
        \<and> snd (analyzeElement w n) = w\<lparr>elementCache := (elementCache w)(n \<mapsto> a)\<rparr>"
  then obtain a where a: "elementCache w n = None" "shouldPreserve a = isMedia a"
    "shouldInvert a = (\<not> isMedia a)"
    "snd (analyzeElement w n) = w\<lparr>elementCache := (elementCache w)(n \<mapsto> a)\<rparr>"
    by blast
  from assms have cm: "elementColorMap w n = None"
    using a(1) by (auto simp: invariant_def colorMapClassified_def)
  show ?thesis unfolding a(4) using assms a(1-3) cm
    by (auto simp: invariant_def cacheSound_def colorMapClassified_def writesGuarded_def)
qed

lemma invariant_transform:
  assumes "invariant w" "elementCache w n = Some a" "shouldInvert a" "\<not> shouldPreserve a"
  shows "invariant (transformElement w n)"
proof -
  consider "transformElement w n = w"
    | cd where "elementColorMap w n = Some cd" "transformElement w n = writeColors w n cd"
    | cd where "elementColorMap w n = None"
        "transformElement w n = writeColors (w\<lparr>elementColorMap := (elementColorMap w)(n \<mapsto> cd)\<rparr>) n cd"
    using transformElement_cases[of w n] by blast
  then show ?thesis
  proof cases
    case 1
    with assms(1) show ?thesis by simp
  next
    case 2
    with invariant_recolor[OF assms(1) 2(1)] show ?thesis by simp
  next
    case 3
    let ?w = "w\<lparr>elementColorMap := (elementColorMap w)(n \<mapsto> cd)\<rparr>"
    have nw: "\<And>p v. (n, p, v) \<notin> set (writes w)"
      using assms(1) 3(1) unfolding invariant_def writesGuarded_def by fastforce
    have "cacheSound ?w" using assms(1) by (simp add: invariant_def cacheSound_def)
    moreover have "colorMapClassified ?w"
      using assms unfolding invariant_def colorMapClassified_def by auto
    moreover have "writesGuarded ?w"
      unfolding writesGuarded_def
    proof (intro allI impI)
      fix m p v assume mem: "(m, p, v) \<in> set (writes ?w)"
      with nw have "m \<noteq> n" by auto
      moreover from mem have "(m, p, v) \<in> set (writes w)" by simp
      with assms(1) have "\<exists>cd'. elementColorMap w m = Some cd'
          \<and> (p = BackgroundColor \<longrightarrow> originalBg cd' \<noteq> [] \<and> originalBg cd' \<noteq> transparent)"
        unfolding invariant_def writesGuarded_def by blast
      ultimately show "\<exists>cd'. elementColorMap ?w m = Some cd'
          \<and> (p = BackgroundColor \<longrightarrow> originalBg cd' \<noteq> [] \<and> originalBg cd' \<noteq> transparent)"
        by simp
    qed
    ultimately have "invariant ?w" by (simp add: invariant_def)
    moreover have "elementColorMap ?w n = Some cd" by simp
    ultimately have "invariant (writeColors ?w n cd)" by (rule invariant_recolor)
    with 3(2) show ?thesis by simp
  qed
qed

lemma invariant_atomic: "atomic w w' \<Longrightarrow> invariant w \<Longrightarrow> invariant w'"
proof (induction rule: atomic.induct)
  case (a_classify w n)
  then show ?case by (rule invariant_classify)
next
  case (a_transform w n a)
  then show ?case by (intro invariant_transform)
next
  case (a_recolor w n cd)
  then show ?case by (intro invariant_recolor)
next
  case (a_observe w)
  then show ?case
    by (simp add: startMutationObserver_def invariant_def cacheSound_def colorMapClassified_def
          writesGuarded_def)
qed

lemma keeps_refl: "keeps w w"
  by (simp add: keeps_def)

lemma keeps_trans: "keeps a b \<Longrightarrow> keeps b c \<Longrightarrow> keeps a c"
  unfolding keeps_def by blast

lemma keeps_recolor: "keeps w (writeColors w n cd)"
  using writeColors_mono[of w n cd] by (simp add: keeps_def)

lemma keeps_classify: "keeps w (snd (analyzeElement w n))"
  using analyzeElement_cases[of w n] by (auto simp: keeps_def)

lemma keeps_transform: "keeps w (transformElement w n)"
proof -
  consider "transformElement w n = w"
    | cd where "elementColorMap w n = Some cd" "transformElement w n = writeColors w n cd"
    | cd where "elementColorMap w n = None"
        "transformElement w n = writeColors (w\<lparr>elementColorMap := (elementColorMap w)(n \<mapsto> cd)\<rparr>) n cd"
    using transformElement_cases[of w n] by blast
  then show ?thesis
  proof cases
    case 1
    then show ?thesis by (simp add: keeps_refl)
  next
    case 2
    then show ?thesis by (simp add: keeps_recolor)
  next
    case 3
    let ?w = "w\<lparr>elementColorMap := (elementColorMap w)(n \<mapsto> cd)\<rparr>"
    have "keeps w ?w" using 3(1) by (auto simp: keeps_def)
    from keeps_trans[OF this keeps_recolor[of ?w n cd]] 3(2) show ?thesis by simp
  qed
qed

lemma keeps_atomic: "atomic w w' \<Longrightarrow> keeps w w'"
proof (induction rule: atomic.induct)
  case (a_observe w)
  then show ?case by (simp add: startMutationObserver_def keeps_def)
qed (simp_all add: keeps_classify keeps_transform keeps_recolor)

lemmas page_eval = page_def tagged_def darkText_def unitSettings_def getComputedStyle_def
  isMediaElement_def isTextElement_def isContainerElement_def analyzeElement_def
  textElements_def containerElements_def toLowerCase_def js_def Let_def transparent_def

lemma setStyle_host [simp]:
  "elements (setStyle w n p v) = elements w"
  "cascade (setStyle w n p v) = cascade w"
  by (simp_all add: setStyle_def)

lemma writeBorder_host [simp]:
  "elements (writeBorder w n cd) = elements w"
  "cascade (writeBorder w n cd) = cascade w"
  by (simp_all add: writeBorder_def)

lemma writeColors_host [simp]:
  "elements (writeColors w n cd) = elements w"
  "cascade (writeColors w n cd) = cascade w"
  by (simp_all add: writeColors_def Let_def split: sum.splits)








lemma transform_capture:
  assumes "elementColorMap w n = None" "getComputedStyle w n = Inr style"
  shows "transformElement w n
     = writeColors (w\<lparr>elementColorMap := (elementColorMap w)(n \<mapsto>
          \<lparr>originalColor = color style, originalBg = backgroundColor style,
            originalBorder = borderColor style\<rparr>)\<rparr>) n
          \<lparr>originalColor = color style, originalBg = backgroundColor style,
            originalBorder = borderColor style\<rparr>"
  using assms by (simp add: transformElement_def Let_def)

section \<open>Runs and reachable worlds\<close>

lemma forEach_run:
  assumes "\<And>s x. R\<^sup>*\<^sup>* (pr s) (pr (snd (f s x)))"
  shows "R\<^sup>*\<^sup>* (pr s) (pr (snd (forEach xs f s)))"
proof (induction xs arbitrary: s)
  case Nil
  show ?case by simp
next
  case (Cons x xs)
  obtain r s' where fx: "f s x = (r, s')" by (cases "f s x")
  from assms[of s x] fx have 1: "R\<^sup>*\<^sup>* (pr s) (pr s')" by simp
  show ?case
  proof (cases r)
    case None
    with fx have "forEach (x # xs) f s = forEach xs f s'" by simp
    with Cons.IH[of s'] 1 show ?thesis by simp
  next
    case (Some e)
    with fx 1 show ?thesis by simp
  qed
qed

lemma classify_run: "analyzeElement w n = (r, w1) \<Longrightarrow> atomic\<^sup>*\<^sup>* w w1"
  using a_classify[of w n] by auto

lemma classify_transform_run:
  assumes "analyzeElement w n = (Inr a, w1)" "shouldInvert a" "\<not> shouldPreserve a"
  shows "atomic\<^sup>*\<^sup>* w (transformElement w1 n)"
proof -
  from assms(1) have "atomic w w1" using a_classify[of w n] by simp
  moreover from analyzeElement_result[OF assms(1)] assms(2,3)
  have "atomic w1 (transformElement w1 n)" by (rule a_transform)
  ultimately show ?thesis by simp
qed

lemma applyThemeNode_run: "atomic\<^sup>*\<^sup>* (fst s) (fst (snd (applyThemeNode s node)))"
proof -
  obtain w processed where s: "s = (w, processed)" by (cases s)
  obtain r w1 where an: "analyzeElement w node = (r, w1)" by (cases "analyzeElement w node")
  show ?thesis
  proof (cases r)
    case (Inl e)
    with an classify_run[OF an] show ?thesis by (simp add: s applyThemeNode_def)
  next
    case (Inr a)
    with an classify_run[OF an] classify_transform_run[of w node a w1]
    show ?thesis by (simp add: s applyThemeNode_def)
  qed
qed

lemma observeChild_run: "atomic\<^sup>*\<^sup>* (fst s) (fst (snd (observeChild s child)))"
proof -
  obtain w processed where s: "s = (w, processed)" by (cases s)
  obtain r w1 where an: "analyzeElement w child = (r, w1)" by (cases "analyzeElement w child")
  show ?thesis
  proof (cases r)
    case (Inl e)
    with an classify_run[OF an] show ?thesis by (simp add: s observeChild_def)
  next
    case (Inr a)
    with an classify_run[OF an] classify_transform_run[of w child a w1]
    show ?thesis by (simp add: s observeChild_def)
  qed
qed

lemma observeAdded_run: "atomic\<^sup>*\<^sup>* (fst s) (fst (snd (observeAdded s added)))"
proof -
  obtain w processed where s: "s = (w, processed)" by (cases s)
  show ?thesis
  proof (cases added)
    case (ElementNode d)
    obtain r w1 where an: "analyzeElement w (ident d) = (r, w1)"
      by (cases "analyzeElement w (ident d)")
    show ?thesis
    proof (cases r)
      case (Inl e)
      with an classify_run[OF an] show ?thesis by (simp add: s ElementNode observeAdded_def)
    next
      case (Inr a)
      show ?thesis
      proof (cases "shouldInvert a \<and> \<not> shouldPreserve a")
        case True
        then have si: "shouldInvert a" "\<not> shouldPreserve a" by simp_all
        from an Inr have "analyzeElement w (ident d) = (Inr a, w1)" by simp
        from classify_transform_run[OF this si]
        have 1: "atomic\<^sup>*\<^sup>* w (transformElement w1 (ident d))" .
        have 2: "atomic\<^sup>*\<^sup>* (fst (transformElement w1 (ident d), ident d # processed))
            (fst (snd (forEach (descendants d) observeChild
               (transformElement w1 (ident d), ident d # processed))))"
          by (rule forEach_run[where pr = fst and R = atomic, OF observeChild_run])
        from 1 2 have "atomic\<^sup>*\<^sup>* w (fst (snd (forEach (descendants d) observeChild
               (transformElement w1 (ident d), ident d # processed))))"
          by simp
        with an Inr True show ?thesis by (simp add: s ElementNode observeAdded_def)
      next
        case False
        with an Inr classify_run[OF an] show ?thesis
          by (auto simp: s ElementNode observeAdded_def)
      qed
    qed
  qed (simp_all add: s observeAdded_def)
qed

lemma observeMutation_run: "atomic\<^sup>*\<^sup>* (fst s) (fst (snd (observeMutation s m)))"
proof -
  obtain w processed where s: "s = (w, processed)" by (cases s)
  show ?thesis
  proof (cases m)
    case (ChildList addedNodes)
    have "atomic\<^sup>*\<^sup>* (fst (w, processed)) (fst (snd (forEach addedNodes observeAdded (w, processed))))"
      by (rule forEach_run[where pr = fst and R = atomic, OF observeAdded_run])
    then show ?thesis by (simp add: s ChildList observeMutation_def)
  next
    case (Attributes attributeName target)
    obtain r w1 where an: "analyzeElement w target = (r, w1)" by (cases "analyzeElement w target")
    show ?thesis
    proof (cases r)
      case (Inl e)
      with an classify_run[OF an] show ?thesis by (simp add: s Attributes observeMutation_def)
    next
      case (Inr a)
      with an classify_run[OF an] classify_transform_run[of w target a w1]
      show ?thesis by (simp add: s Attributes observeMutation_def)
    qed
  qed
qed

lemma applyTheme_run: "atomic\<^sup>*\<^sup>* w (snd (applyTheme w))"
proof (cases "enabled (currentSettings w)")
  case False
  then show ?thesis by (simp add: applyTheme_def)
next
  case True
  obtain r w1 processed where fe:
    "forEach (descendants (document w)) applyThemeNode (w, []) = (r, w1, processed)"
    by (cases "forEach (descendants (document w)) applyThemeNode (w, [])") auto
  have "atomic\<^sup>*\<^sup>* (fst (w, []::node list)) (fst (snd (forEach (descendants (document w)) applyThemeNode (w, []))))"
    by (rule forEach_run[where pr = fst and R = atomic, OF applyThemeNode_run])
  with fe have 1: "atomic\<^sup>*\<^sup>* w w1" by simp
  have "atomic w1 (startMutationObserver w1)" by (rule a_observe)
  with 1 have 2: "atomic\<^sup>*\<^sup>* w (startMutationObserver w1)" by simp
  from True fe 1 2 show ?thesis by (cases r) (simp_all add: applyTheme_def)
qed

lemma updateElement_run: "atomic\<^sup>*\<^sup>* w (snd (updateElement w element))"
proof (cases "elementColorMap w element")
  case None
  then show ?thesis by (simp add: updateElement_def)
next
  case (Some cd)
  then have "atomic w (writeColors w element cd)" by (rule a_recolor)
  with Some show ?thesis by (simp add: updateElement_def)
qed

lemma update_run: "atomic\<^sup>*\<^sup>* w (snd (updateThemeWithNewSettings w))"
proof (cases "enabled (currentSettings w)")
  case False
  then show ?thesis by (simp add: updateThemeWithNewSettings_def)
next
  case True
  have "atomic\<^sup>*\<^sup>* (id w) (id (snd (forEach (preorder (document w)) updateElement w)))"
    by (rule forEach_run[where pr = id and R = atomic]) (simp add: updateElement_run)
  with True show ?thesis by (simp add: updateThemeWithNewSettings_def)
qed

lemma observer_run: "atomic\<^sup>*\<^sup>* w (snd (observerCallback w ms))"
proof -
  have "atomic\<^sup>*\<^sup>* (fst (w, []::node list)) (fst (snd (forEach ms observeMutation (w, []))))"
    by (rule forEach_run[where pr = fst and R = atomic, OF observeMutation_run])
  then show ?thesis by (auto simp: observerCallback_def split: prod.splits)
qed

lemma invariant_run: "atomic\<^sup>*\<^sup>* w w' \<Longrightarrow> invariant w \<Longrightarrow> invariant w'"
  by (induction rule: rtranclp_induct) (auto intro: invariant_atomic)

lemma keeps_run: "atomic\<^sup>*\<^sup>* w w' \<Longrightarrow> keeps w w'"
  by (induction rule: rtranclp_induct) (auto intro: keeps_refl keeps_trans keeps_atomic)

lemma invariant_step: "step w w' \<Longrightarrow> invariant w \<Longrightarrow> invariant w'"
proof (induction rule: step.induct)
  case (page w d es cas)
  then show ?case
    by (simp add: invariant_def cacheSound_def colorMapClassified_def writesGuarded_def)
next
  case (message w st)
  then show ?case
    by (simp add: invariant_def cacheSound_def colorMapClassified_def writesGuarded_def)
next
  case (full w)
  with invariant_run[OF applyTheme_run] show ?case by blast
next
  case (update w)
  with invariant_run[OF update_run] show ?case by blast
next
  case (observed w ms)
  with invariant_run[OF observer_run] show ?case by blast
next
  case (classify w n)
  then show ?case by (rule invariant_classify)
next
  case (transform w n a)
  then show ?case by (intro invariant_transform)
qed

lemma keeps_step: "step w w' \<Longrightarrow> keeps w w'"
proof (induction rule: step.induct)
  case (page w d es cas)
  show ?case by (simp add: keeps_def)
next
  case (message w st)
  show ?case by (simp add: keeps_def)
qed (simp_all add: keeps_run applyTheme_run update_run observer_run keeps_classify keeps_transform)

lemma invariant_initial: "initial w \<Longrightarrow> invariant w"
  by (simp add: initial_def invariant_def cacheSound_def colorMapClassified_def writesGuarded_def)

lemma invariant_reachable: "reachable w \<Longrightarrow> invariant w"
  by (induction rule: reachable.induct) (auto intro: invariant_initial invariant_step)

lemma later_keeps: "later w w' \<Longrightarrow> keeps w w'"
  unfolding later_def
  by (induction rule: rtranclp_induct) (auto intro: keeps_refl keeps_trans keeps_step)

lemma later_reachable: "later w w' \<Longrightarrow> reachable w \<Longrightarrow> reachable w'"
  unfolding later_def
  by (induction rule: rtranclp_induct) (auto intro: reachable.after)

section \<open>The claims about the pipeline\<close>


lemma getComputedStyle_settings [simp]:
  "getComputedStyle (w\<lparr>currentSettings := st\<rparr>) n = getComputedStyle w n"
  by (simp add: getComputedStyle_def)


text \<open>
  C2. In every reachable world, when \<open>analyzeElement\<close> classifies an element as media, the
  classification says preserve and not invert, and whatever the script and the page do
  afterwards, under any settings, the script has never written and never writes any
  style property of that element, its background colour in particular.
\<close>

theorem media_never_written:
  assumes "reachable w" and "fst (analyzeElement w n) = Inr a" and "isMedia a"
    and "later (snd (analyzeElement w n)) w'"
  shows "shouldPreserve a \<and> \<not> shouldInvert a \<and> (\<forall>p v. (n, p, v) \<notin> set (writes w'))"
proof -
  let ?w1 = "snd (analyzeElement w n)"
  from assms(2) have "analyzeElement w n = (Inr a, ?w1)" by (cases "analyzeElement w n") simp
  then have c1: "elementCache ?w1 n = Some a" by (rule analyzeElement_result)
  have "step w ?w1" by (rule step.classify)
  with assms(1) have "reachable ?w1" by (rule reachable.after)
  with assms(4) have r': "reachable w'" by (rule later_reachable)
  then have inv: "invariant w'" by (rule invariant_reachable)
  from later_keeps[OF assms(4)] c1 have c': "elementCache w' n = Some a"
    unfolding keeps_def by blast
  from inv c' assms(3) have flags: "shouldPreserve a \<and> \<not> shouldInvert a"
    unfolding invariant_def cacheSound_def by blast
  have "\<forall>p v. (n, p, v) \<notin> set (writes w')"
  proof (intro allI notI)
    fix p v assume "(n, p, v) \<in> set (writes w')"
    with inv have "elementColorMap w' n \<noteq> None"
      unfolding invariant_def writesGuarded_def by blast
    with inv obtain a' where "elementCache w' n = Some a'" "shouldInvert a'"
      unfolding invariant_def colorMapClassified_def by blast
    with c' flags show False by simp
  qed
  with flags show ?thesis by blast
qed

text \<open>
  C5, amended. In every reachable world the background of an element whose cache entry
  records the transparent sentinel as original background has never been written, and
  an element without cache entry has never been written at all. The first
  \<open>transformElement\<close> of an element whose computed background is the sentinel does
  create the cache entry and records the sentinel in it, and cache entries stay as they
  are whatever happens later.
\<close>

theorem transparent_background_kept:
  "(reachable w \<and> elementColorMap w n = Some cd \<and> originalBg cd = transparent
      \<longrightarrow> (\<forall>v. (n, BackgroundColor, v) \<notin> set (writes w)))
   \<and> (reachable w \<and> elementColorMap w n = None \<longrightarrow> (\<forall>p v. (n, p, v) \<notin> set (writes w)))
   \<and> (elementColorMap w n = None \<and> getComputedStyle w n = Inr style
        \<and> backgroundColor style = transparent
      \<longrightarrow> (\<exists>cd'. elementColorMap (transformElement w n) n = Some cd'
             \<and> originalBg cd' = transparent))
   \<and> (later w w' \<and> elementColorMap w n = Some cd \<longrightarrow> elementColorMap w' n = Some cd)"
proof (intro conjI impI)
  assume a: "reachable w \<and> elementColorMap w n = Some cd \<and> originalBg cd = transparent"
  then have inv: "invariant w" by (simp add: invariant_reachable)
  show "\<forall>v. (n, BackgroundColor, v) \<notin> set (writes w)"
  proof (intro allI notI)
    fix v assume "(n, BackgroundColor, v) \<in> set (writes w)"
    with inv obtain cd' where "elementColorMap w n = Some cd'" "originalBg cd' \<noteq> transparent"
      unfolding invariant_def writesGuarded_def by blast
    with a show False by simp
  qed
next
  assume a: "reachable w \<and> elementColorMap w n = None"
  then have inv: "invariant w" by (simp add: invariant_reachable)
  show "\<forall>p v. (n, p, v) \<notin> set (writes w)"
  proof (intro allI notI)
    fix p v assume "(n, p, v) \<in> set (writes w)"
    with inv have "elementColorMap w n \<noteq> None"
      unfolding invariant_def writesGuarded_def by blast
    with a show False by simp
  qed
next
  assume a: "elementColorMap w n = None \<and> getComputedStyle w n = Inr style
        \<and> backgroundColor style = transparent"
  then have "transformElement w n
     = writeColors (w\<lparr>elementColorMap := (elementColorMap w)(n \<mapsto>
          \<lparr>originalColor = color style, originalBg = backgroundColor style,
            originalBorder = borderColor style\<rparr>)\<rparr>) n
          \<lparr>originalColor = color style, originalBg = backgroundColor style,
            originalBorder = borderColor style\<rparr>"
    by (intro transform_capture) simp_all
  with a show "\<exists>cd'. elementColorMap (transformElement w n) n = Some cd'
             \<and> originalBg cd' = transparent" by simp
next
  assume "later w w' \<and> elementColorMap w n = Some cd"
  with later_keeps[of w w'] show "elementColorMap w' n = Some cd"
    unfolding keeps_def by blast
qed

section \<open>The example pages, evaluated\<close>

lemma transformElement_host [simp]:
  "document (transformElement w n) = document w"
  "elements (transformElement w n) = elements w"
  "cascade (transformElement w n) = cascade w"
  using transformElement_cases[of w n] by auto


lemma later_step: "step w w' \<Longrightarrow> later w w'"
  by (simp add: later_def)

lemma dark_parse: "parseRGB (js ''rgb(10, 10, 10)'') = Some (10, 10, 10)"
  by (simp add: parse_eval)

lemma dark_invert: "invertForDarkTheme (js ''rgb(10, 10, 10)'') unitSettings = js ''rgb(245, 245, 245)''"
  unfolding invertForDarkTheme_def dark_parse unitSettings_def
  by (simp only: channels_scenario1 format_eval option.case)





lemmas run_eval = observerCallback_def observeMutation_def observeAdded_def observeChild_def
  applyTheme_def applyThemeNode_def descendants_def startMutationObserver_def
  updateThemeWithNewSettings_def updateElement_def


lemma ghost_applied:
  "elementColorMap (snd (applyTheme ghostPage)) 1
     = Some \<lparr>originalColor = transparent, originalBg = transparent, originalBorder = transparent\<rparr>"
  by (simp add: run_eval transformElement_def writeColors_def writeBorder_def ghostPage_def page_eval)


text \<open>
  C5, as the claim states it, fails in its second half: the full pass does create the
  cache entry of an element whose background is the transparent sentinel.
\<close>

theorem transparent_capture_counterexample:
  "cascade ghostPage (writes ghostPage) 1
     = Some \<lparr>backgroundImage = js ''none'', color = transparent,
              backgroundColor = transparent, borderColor = transparent\<rparr>
   \<and> elementColorMap (snd (applyTheme ghostPage)) 1 \<noteq> None"
  using ghost_applied by (simp add: ghostPage_def page_def)

text \<open>
  C7 on the page with the background image: the inserted subtree is a \<open>div\<close> that is
  media and holds a paragraph that is not. The callback ends without exception, writes
  nothing and never classifies the paragraph, whereas the full pass over the same tree
  transforms the paragraph. When the inserted root is a paragraph that holds an image,
  the callback writes the paragraph and leaves the image alone.
\<close>

theorem inserted_media_root_children_skipped:
  "isMediaElement heroPage 1 = Inr True \<and> isMediaElement heroPage 2 = Inr False
   \<and> fst (observerCallback heroPage [ChildList [ElementNode (Element 1 [Element 2 []])]]) = None
   \<and> writes (snd (observerCallback heroPage [ChildList [ElementNode (Element 1 [Element 2 []])]])) = []
   \<and> elementCache (snd (observerCallback heroPage [ChildList [ElementNode (Element 1 [Element 2 []])]])) 2
       = None
   \<and> lastWrite (writes (snd (applyTheme heroPage))) 2 Color = Some (js ''rgb(245, 245, 245)'')
   \<and> writes (snd (observerCallback galleryPage [ChildList [ElementNode (Element 2 [Element 1 []])]]))
       = [(2, BorderColor, js ''rgb(245, 245, 245)''), (2, Color, js ''rgb(245, 245, 245)'')]"
  unfolding dark_invert[symmetric]
  by (simp add: run_eval transformElement_def writeColors_def writeBorder_def setStyle_def
        heroPage_def galleryPage_def page_eval)

text \<open>
  C8 on the page whose first element has an unreadable computed style: the full pass ends
  with the exception of \<open>analyzeElement\<close>, leaves the paragraph after it unclassified and
  unwritten and does not start the observer; a batch with both elements ends the same
  way, whereas a batch with the paragraph alone transforms it.
\<close>

theorem unreadable_style_aborts_pass:
  "fst (applyTheme brokenPage) = Some TypeError
   \<and> writes (snd (applyTheme brokenPage)) = []
   \<and> elementCache (snd (applyTheme brokenPage)) 2 = None
   \<and> \<not> mutationObserver (snd (applyTheme brokenPage))
   \<and> fst (observerCallback brokenPage
        [ChildList [ElementNode (Element 1 []), ElementNode (Element 2 [])]]) = Some TypeError
   \<and> writes (snd (observerCallback brokenPage
        [ChildList [ElementNode (Element 1 []), ElementNode (Element 2 [])]])) = []
   \<and> lastWrite (writes (snd (observerCallback brokenPage
        [ChildList [ElementNode (Element 2 [])]]))) 2 Color = Some (js ''rgb(245, 245, 245)'')"
  unfolding dark_invert[symmetric]
  by (simp add: run_eval transformElement_def writeColors_def writeBorder_def setStyle_def
        brokenPage_def page_eval)



lemma gallery_facts:
  "initial galleryPage"
  "analyzeElement galleryPage 1 = (Inr \<lparr>isMedia = True, isText = False, isContainer = False,
      shouldInvert = False, shouldPreserve = True\<rparr>,
    galleryPage\<lparr>elementCache := [1 \<mapsto> \<lparr>isMedia = True, isText = False, isContainer = False,
      shouldInvert = False, shouldPreserve = True\<rparr>]\<rparr>)"
  by (simp_all add: initial_def galleryPage_def page_eval)

theorem media_never_written_witness:
  "reachable galleryPage
   \<and> fst (analyzeElement galleryPage 1) = Inr \<lparr>isMedia = True, isText = False, isContainer = False,
        shouldInvert = False, shouldPreserve = True\<rparr>
   \<and> later (snd (analyzeElement galleryPage 1)) (snd (applyTheme (snd (analyzeElement galleryPage 1))))
   \<and> (\<forall>p v. (1, p, v) \<notin> set (writes (snd (applyTheme (snd (analyzeElement galleryPage 1))))))"
proof -
  have r: "reachable galleryPage" using gallery_facts(1) by (rule reachable.start)
  have f: "fst (analyzeElement galleryPage 1) = Inr \<lparr>isMedia = True, isText = False,
      isContainer = False, shouldInvert = False, shouldPreserve = True\<rparr>"
    by (simp only: gallery_facts(2) fst_conv)
  have m: "isMedia \<lparr>isMedia = True, isText = False,
      isContainer = False, shouldInvert = False, shouldPreserve = True\<rparr>" by simp
  have l: "later (snd (analyzeElement galleryPage 1)) (snd (applyTheme (snd (analyzeElement galleryPage 1))))"
    by (rule later_step) (rule step.full)
  from media_never_written[OF r f m l] r f l show ?thesis by blast
qed

lemma ghost_facts:
  "initial ghostPage"
  "elementColorMap ghostPage 1 = None"
  "getComputedStyle ghostPage 1 = Inr \<lparr>backgroundImage = js ''none'', color = transparent,
              backgroundColor = transparent, borderColor = transparent\<rparr>"
  by (simp_all add: initial_def ghostPage_def page_def getComputedStyle_def)

theorem transparent_background_kept_witness:
  "reachable (snd (applyTheme ghostPage))
   \<and> elementColorMap (snd (applyTheme ghostPage)) 1
       = Some \<lparr>originalColor = transparent, originalBg = transparent, originalBorder = transparent\<rparr>
   \<and> (\<forall>v. (1, BackgroundColor, v) \<notin> set (writes (snd (applyTheme ghostPage))))
   \<and> reachable ghostPage \<and> elementColorMap ghostPage 1 = None
   \<and> (\<forall>p v. (1, p, v) \<notin> set (writes ghostPage))
   \<and> (\<exists>cd'. elementColorMap (transformElement ghostPage 1) 1 = Some cd' \<and> originalBg cd' = transparent)
   \<and> later (snd (applyTheme ghostPage)) (snd (updateThemeWithNewSettings (snd (applyTheme ghostPage))))
   \<and> elementColorMap (snd (updateThemeWithNewSettings (snd (applyTheme ghostPage)))) 1
       = Some \<lparr>originalColor = transparent, originalBg = transparent, originalBorder = transparent\<rparr>"
proof -
  let ?cd = "\<lparr>originalColor = transparent, originalBg = transparent, originalBorder = transparent\<rparr>"
  let ?style = "\<lparr>backgroundImage = js ''none'', color = transparent,
              backgroundColor = transparent, borderColor = transparent\<rparr>"
  have r0: "reachable ghostPage" using ghost_facts(1) by (rule reachable.start)
  have r1: "reachable (snd (applyTheme ghostPage))"
    using r0 step.full by (rule reachable.after)
  have l: "later (snd (applyTheme ghostPage)) (snd (updateThemeWithNewSettings (snd (applyTheme ghostPage))))"
    by (rule later_step) (rule step.update)
  note t1 = transparent_background_kept[of "snd (applyTheme ghostPage)" 1 ?cd ?style
      "snd (updateThemeWithNewSettings (snd (applyTheme ghostPage)))"]
  note t0 = transparent_background_kept[of ghostPage 1 ?cd ?style ghostPage]
  from t1 r1 ghost_applied have a: "\<forall>v. (1, BackgroundColor, v) \<notin> set (writes (snd (applyTheme ghostPage)))"
    by simp
  from t1 l ghost_applied have d: "elementColorMap (snd (updateThemeWithNewSettings (snd (applyTheme ghostPage)))) 1
       = Some ?cd" by simp
  from t0 r0 ghost_facts(2) have b: "\<forall>p v. (1, p, v) \<notin> set (writes ghostPage)" by simp
  from t0 ghost_facts(2,3)
  have c: "\<exists>cd'. elementColorMap (transformElement ghostPage 1) 1 = Some cd' \<and> originalBg cd' = transparent"
    by simp
  from a b c d r0 r1 l ghost_applied ghost_facts(2) show ?thesis by blast
qed








end
